theory Spec2Isabelle
  imports Complex_Main
begin

text \<open>
  The job logic of the component \<^verbatim>\<open>CavemanAnalyzer\<close>, in its version with retry and
  progress bar: the check of a result for a video, the progress estimate, the
  submission with retry (\<^verbatim>\<open>makeRequest\<close>), and the callbacks of \<^verbatim>\<open>analyzeImage\<close> and
  \<^verbatim>\<open>startPollingForVideo\<close>, run by an event loop with a clock in milliseconds.
  The network and the user are the environment of a run.
\<close>

section \<open>JavaScript values used by the component\<close>

text \<open>
  A JavaScript string is a sequence of UTF-16 code units; each unit is kept as its
  number, so that the emoji of the display texts and the Unicode white space that
  \<^verbatim>\<open>String.prototype.trim\<close> removes can be written down. \<open>ascii\<close> turns an
  ASCII literal into such a string.
\<close>

type_synonym jsstring = "nat list"

definition ascii :: "string \<Rightarrow> jsstring" where
  "ascii s = map of_char s"

text \<open>
  The code units \<^verbatim>\<open>trim()\<close> strips: the WhiteSpace and LineTerminator productions of
  ECMAScript (TAB, LF, VT, FF, CR, SP, NBSP, U+1680, U+2000..U+200A, U+2028, U+2029,
  U+202F, U+205F, U+3000, U+FEFF).
\<close>

definition isWhiteSpace :: "nat \<Rightarrow> bool" where
  "isWhiteSpace c \<longleftrightarrow>
     c \<in> {9, 10, 11, 12, 13, 32, 160, 5760, 8232, 8233, 8239, 8287, 12288, 65279}
     \<or> (8192 \<le> c \<and> c \<le> 8202)"

definition trim :: "jsstring \<Rightarrow> jsstring" where
  "trim s = rev (dropWhile isWhiteSpace (rev (dropWhile isWhiteSpace s)))"

definition startsWith :: "jsstring \<Rightarrow> jsstring \<Rightarrow> bool" where
  "startsWith s p \<longleftrightarrow> take (length p) s = p"

text \<open>Truthiness of an optional string: \<^verbatim>\<open>undefined\<close> and \<^verbatim>\<open>""\<close> are falsy.\<close>

definition truthy :: "jsstring option \<Rightarrow> bool" where
  "truthy v = (case v of None \<Rightarrow> False | Some s \<Rightarrow> s \<noteq> [])"

text \<open>\<^verbatim>\<open>a || b\<close> on an optional string and a default.\<close>

definition orElse :: "jsstring option \<Rightarrow> jsstring \<Rightarrow> jsstring" where
  "orElse v d = (case v of None \<Rightarrow> d | Some s \<Rightarrow> (if s = [] then d else s))"

text \<open>Decimal digits of a number, for the template literal of the retry toast.\<close>

function showNat :: "nat \<Rightarrow> jsstring" where
  "showNat n = (if n < 10 then [48 + n] else showNat (n div 10) @ [48 + n mod 10])"
  by pat_completeness auto
termination
  by (relation "measure (\<lambda>n. n)") auto

declare showNat.simps [simp del]

text \<open>
  Values of a request body. \<open>JIso t\<close> stands for the string
  \<^verbatim>\<open>new Date(t).toISOString()\<close> of the clock reading \<open>t\<close> (milliseconds).
\<close>

datatype json = JNull | JBool bool | JNum nat | JStr jsstring | JIso nat

type_synonym payload = "(string \<times> json) list"

text \<open>The interface \<^verbatim>\<open>AnalysisResponse\<close> of the component.\<close>

record AnalysisResponse =
  status :: jsstring
  video_url :: "jsstring option"
  message :: "jsstring option"
  processing_status :: "jsstring option"
  created_at :: "jsstring option"
  request_id :: "jsstring option"

text \<open>The two properties of the selected \<^verbatim>\<open>File\<close> that the component reads.\<close>

record image_file =
  name :: jsstring
  ftype :: jsstring

record toast =
  title :: jsstring
  description :: jsstring
  destructive :: bool

section \<open>The result check\<close>

text \<open>
  The condition of the first branch after a submission and of the polling callback:
  \<^verbatim>\<open>result.status === "success" && result.video_url && result.video_url.trim()
        && result.video_url.startsWith('http')\<close>
\<close>

definition successWithVideo :: "AnalysisResponse \<Rightarrow> bool" where
  "successWithVideo result \<longleftrightarrow>
     status result = ascii ''success'' \<and> truthy (video_url result)
     \<and> (case video_url result of None \<Rightarrow> False
         | Some u \<Rightarrow> trim u \<noteq> [] \<and> startsWith u (ascii ''http''))"

section \<open>Progress estimate\<close>

text \<open>
  \<^verbatim>\<open>Math.floor((Date.now() - processingStartTime) / 1000)\<close>. Times are integers
  (milliseconds); \<open>div\<close> on \<open>int\<close> rounds down, as \<^verbatim>\<open>Math.floor\<close> does.
\<close>

definition elapsedSeconds :: "int \<Rightarrow> int \<Rightarrow> int" where
  "elapsedSeconds now start = (now - start) div 1000"

text \<open>\<^verbatim>\<open>!processingStartTime\<close>: the state is \<^verbatim>\<open>null\<close> or the number 0.\<close>

definition unset :: "int option \<Rightarrow> bool" where
  "unset start = (case start of None \<Rightarrow> True | Some s \<Rightarrow> s = 0)"

text \<open>
  \<^verbatim>\<open>getProgress\<close>. JavaScript numbers are read as exact reals: the quotient is not
  rounded to a double.
\<close>

definition getProgress :: "int \<Rightarrow> int option \<Rightarrow> real" where
  "getProgress now processingStartTime =
     (if unset processingStartTime then 0
      else let elapsed = elapsedSeconds now (the processingStartTime);
               totalEstimatedTime = 240
           in min ((of_int elapsed / totalEstimatedTime) * 100) 95)"

definition msgAnalyzing :: jsstring where
  "msgAnalyzing = [0xD83D, 0xDD0D] @ ascii '' Cave spirits analyzing your essence...''"

definition msgImage :: jsstring where
  "msgImage = [0xD83C, 0xDFA8] @ ascii '' Ancient artists crafting your caveman form...''"

definition msgVideo :: jsstring where
  "msgVideo = [0xD83C, 0xDFAC] @ ascii '' Weaving time magic for your transformation...''"

definition getProcessingMessage :: "int \<Rightarrow> int option \<Rightarrow> jsstring" where
  "getProcessingMessage now processingStartTime =
     (if unset processingStartTime then ascii ''Preparing cave magic...''
      else let elapsed = elapsedSeconds now (the processingStartTime)
           in if elapsed < 15 then msgAnalyzing
              else if elapsed < 90 then msgImage
              else msgVideo)"

definition getEstimatedTimeRemaining :: "int \<Rightarrow> int option \<Rightarrow> jsstring" where
  "getEstimatedTimeRemaining now processingStartTime =
     (if unset processingStartTime then ascii ''2-4 minutes''
      else let elapsed = elapsedSeconds now (the processingStartTime)
           in if elapsed < 15 then ascii ''2-4 minutes remaining''
              else if elapsed < 90 then ascii ''1-3 minutes remaining''
              else if elapsed < 180 then ascii ''1-2 minutes remaining''
              else ascii ''Almost done...'')"

section \<open>Submission with retry: \<^verbatim>\<open>makeRequest\<close>\<close>

text \<open>
  What can happen inside the \<^verbatim>\<open>try\<close> block of one attempt. \<^verbatim>\<open>convertToBase64\<close>
  resolves with the data or rejects (\<^verbatim>\<open>reader.onerror\<close>); \<^verbatim>\<open>fetch\<close> rejects or
  resolves with a response that has a status code and a body, which
  \<^verbatim>\<open>response.json()\<close> parses or rejects (\<open>None\<close>). Each await takes some time.
\<close>

datatype fetch_outcome = Rejects | Responds nat "AnalysisResponse option"

record attempt_env =
  readMs :: nat
  readData :: "jsstring option"
  fetchMs :: nat
  fetched :: fetch_outcome

text \<open>\<^verbatim>\<open>response.ok\<close>: the status is in the range 200 to 299.\<close>

definition ok :: "nat \<Rightarrow> bool" where
  "ok code \<longleftrightarrow> 200 \<le> code \<and> code \<le> 299"

text \<open>The value caught by the \<^verbatim>\<open>catch\<close> block.\<close>

datatype failure = ReadError | NetworkError | HttpError nat | BodyError

text \<open>What an attempt does that is visible outside, with the time it happens.\<close>

datatype action = ShowToast nat toast | Fetch nat payload | Sleep nat nat

definition submitPayload :: "jsstring \<Rightarrow> image_file \<Rightarrow> nat \<Rightarrow> nat \<Rightarrow> payload" where
  "submitPayload base64Image selectedImage clock attempt =
     [(''image'', JStr base64Image),
      (''filename'', JStr (name selectedImage)),
      (''mimeType'', JStr (ftype selectedImage)),
      (''timestamp'', JIso clock),
      (''trigger_workflow'', JBool True),
      (''attempt'', JNum attempt)]"

definition attemptToast :: "nat \<Rightarrow> toast" where
  "attemptToast attempt =
     (if attempt = 1
      then \<lparr>title = ascii ''Caveman Magic Starting!'',
            description = ascii ''Sending picture to cave spirits... This take time!'',
            destructive = False\<rparr>
      else \<lparr>title = ascii ''Retry Attempt '' @ showNat attempt,
            description = ascii ''Waking up sleeping cave spirits...'',
            destructive = False\<rparr>)"

text \<open>
  The \<^verbatim>\<open>try\<close> block of \<^verbatim>\<open>makeRequest\<close>, started at \<open>now\<close>: the actions, the value
  returned (\<open>Inr\<close>) or thrown (\<open>Inl\<close>), and the time at which that is known.
\<close>

definition attemptOnce ::
  "image_file \<Rightarrow> attempt_env \<Rightarrow> nat \<Rightarrow> nat \<Rightarrow> action list \<times> (failure + AnalysisResponse) \<times> nat" where
  "attemptOnce selectedImage e now attempt =
     (let t1 = now + readMs e in
      case readData e of
        None \<Rightarrow> ([], Inl ReadError, t1)
      | Some base64Image \<Rightarrow>
          let acts = [ShowToast t1 (attemptToast attempt),
                      Fetch t1 (submitPayload base64Image selectedImage t1 attempt)];
              t2 = t1 + fetchMs e
          in (case fetched e of
                Rejects \<Rightarrow> (acts, Inl NetworkError, t2)
              | Responds code parsed \<Rightarrow>
                  (if \<not> ok code then (acts, Inl (HttpError code), t2)
                   else (case parsed of
                           None \<Rightarrow> (acts, Inl BodyError, t2)
                         | Some result \<Rightarrow> (acts, Inr result, t2)))))"

text \<open>
  \<^verbatim>\<open>makeRequest(attempt)\<close>: the \<^verbatim>\<open>catch\<close> block waits
  \<^verbatim>\<open>Math.pow(2, attempt) * 1000\<close> ms and calls \<^verbatim>\<open>makeRequest(attempt + 1)\<close> while
  \<^verbatim>\<open>attempt < 3\<close>, and rethrows otherwise. \<open>env\<close> gives the environment of each
  attempt by its number.
\<close>

function makeRequest ::
  "image_file \<Rightarrow> (nat \<Rightarrow> attempt_env) \<Rightarrow> nat \<Rightarrow> nat \<Rightarrow> action list \<times> (failure + AnalysisResponse) \<times> nat" where
  "makeRequest selectedImage env now attempt =
     (case attemptOnce selectedImage (env attempt) now attempt of
        (acts, Inr result, t) \<Rightarrow> (acts, Inr result, t)
      | (acts, Inl error, t) \<Rightarrow>
          if attempt < 3 then
            (let delay = 2 ^ attempt * 1000 in
             case makeRequest selectedImage env (t + delay) (attempt + 1) of
               (acts', r) \<Rightarrow> (acts @ Sleep t delay # acts', r))
          else (acts, Inl error, t))"
  by pat_completeness auto
termination
  by (relation "measure (\<lambda>(f, env, now, attempt). 3 - attempt)") auto

declare makeRequest.simps [simp del]

fun toastsOf :: "action list \<Rightarrow> (nat \<times> toast) list" where
  "toastsOf [] = []"
| "toastsOf (ShowToast t x # as) = (t, x) # toastsOf as"
| "toastsOf (_ # as) = toastsOf as"

fun fetchesOf :: "action list \<Rightarrow> (nat \<times> payload) list" where
  "fetchesOf [] = []"
| "fetchesOf (Fetch t p # as) = (t, p) # fetchesOf as"
| "fetchesOf (_ # as) = fetchesOf as"

fun sleepsOf :: "action list \<Rightarrow> nat list" where
  "sleepsOf [] = []"
| "sleepsOf (Sleep t d # as) = d # sleepsOf as"
| "sleepsOf (_ # as) = sleepsOf as"

section \<open>The component and its timers\<close>

text \<open>
  The React state of \<^verbatim>\<open>CavemanAnalyzer\<close> that the job logic reads or writes
  (\<^verbatim>\<open>imagePreview\<close> and \<^verbatim>\<open>isDragOver\<close> play no part in it, and
  \<^verbatim>\<open>processingStage\<close> is never set). Every \<^verbatim>\<open>setX(v)\<close> is an update of the field;
  the constants \<^verbatim>\<open>isProcessing\<close>, \<^verbatim>\<open>requestId\<close>, ... that a callback sees are the
  values of the render in which the callback was created, and a later \<^verbatim>\<open>setX\<close> does
  not change them.
\<close>

record cstate =
  selectedImage :: "image_file option"
  isAnalyzing :: bool
  videoUrl :: "jsstring option"
  isProcessing :: bool
  requestId :: "jsstring option"
  processingStartTime :: "nat option"
  progress :: real
  showSuccessAnimation :: bool

text \<open>Who sent a request: the submission, or the polling loop with the given interval id.\<close>

datatype sender = Submission | Probe nat

record request =
  sentAt :: nat
  sentBy :: sender
  body :: payload

text \<open>
  The callbacks waiting in the event loop. \<open>Settle\<close> is the rest of
  \<^verbatim>\<open>analyzeImage\<close> after \<^verbatim>\<open>await makeRequest()\<close>; \<open>PollTick\<close> is the callback of
  \<^verbatim>\<open>setInterval\<close> and \<open>PollReply\<close> its continuation after \<^verbatim>\<open>await fetch\<close>;
  \<open>Deadline\<close> is the callback of the 6 minute \<^verbatim>\<open>setTimeout\<close>. A callback carries
  the constants its closure captured: \<^verbatim>\<open>requestId\<close> for the payload of a probe,
  \<^verbatim>\<open>isProcessing\<close> for the deadline, and the interval id \<^verbatim>\<open>pollInterval\<close>.
\<close>

datatype task =
    Click
  | Settle "jsstring option" bool "failure + AnalysisResponse"
  | PollTick nat "jsstring option"
  | PollReply nat fetch_outcome
  | Deadline nat bool
  | HideAnimation
  | ProgressTick nat

text \<open>
  The network, as the environment of a run: for a submission started at a time, the
  environment of each attempt; for a probe of a loop sent at a time, how long the
  answer takes and what it is.
\<close>

record environment =
  submitNet :: "nat \<Rightarrow> nat \<Rightarrow> attempt_env"
  probeNet :: "nat \<Rightarrow> nat \<Rightarrow> nat \<times> fetch_outcome"

text \<open>
  \<open>active\<close> holds the ids of the polling intervals that \<^verbatim>\<open>clearInterval\<close> has not
  stopped, \<open>progressTimer\<close> the interval of the progress effect, \<open>queue\<close> the pending
  callbacks ordered by the time they are due.
\<close>

record world =
  now :: nat
  comp :: cstate
  toasts :: "(nat \<times> toast) list"
  requests :: "request list"
  active :: "nat list"
  nextId :: nat
  progressTimer :: "nat option"
  queue :: "(nat \<times> task) list"

text \<open>A callback due at \<open>t\<close> runs after the callbacks already due at \<open>t\<close> or before.\<close>

fun enqueue :: "nat \<Rightarrow> task \<Rightarrow> (nat \<times> task) list \<Rightarrow> (nat \<times> task) list" where
  "enqueue t x [] = [(t, x)]"
| "enqueue t x ((t', y) # q) =
     (if t < t' then (t, x) # (t', y) # q else (t', y) # enqueue t x q)"

definition later :: "nat \<Rightarrow> task \<Rightarrow> world \<Rightarrow> world" where
  "later ms x w = w\<lparr>queue := enqueue (now w + ms) x (queue w)\<rparr>"

definition showToast :: "toast \<Rightarrow> world \<Rightarrow> world" where
  "showToast x w = w\<lparr>toasts := toasts w @ [(now w, x)]\<rparr>"

text \<open>
  The effect with dependencies \<^verbatim>\<open>[isProcessing, processingStartTime]\<close>, run after a
  callback changed the state from \<open>old\<close>: its cleanup clears the running interval,
  and a new one is started unless \<^verbatim>\<open>!isProcessing || !processingStartTime\<close>.
\<close>

definition progressEffect :: "cstate \<Rightarrow> world \<Rightarrow> world" where
  "progressEffect old w =
     (if isProcessing (comp w) = isProcessing old
         \<and> processingStartTime (comp w) = processingStartTime old
      then w
      else if \<not> isProcessing (comp w) \<or> unset (map_option int (processingStartTime (comp w)))
      then w\<lparr>progressTimer := None\<rparr>
      else later 1000 (ProgressTick (nextId w))
             (w\<lparr>progressTimer := Some (nextId w), nextId := nextId w + 1\<rparr>))"

definition progressTick :: "nat \<Rightarrow> world \<Rightarrow> world" where
  "progressTick interval w =
     (if progressTimer w \<noteq> Some interval then w
      else later 1000 (ProgressTick interval)
             (w\<lparr>comp := (comp w)\<lparr>progress :=
                   getProgress (int (now w)) (map_option int (processingStartTime (comp w)))\<rparr>\<rparr>))"

subsection \<open>\<^verbatim>\<open>startPollingForVideo\<close>\<close>

definition probePayload :: "jsstring option \<Rightarrow> nat \<Rightarrow> payload" where
  "probePayload requestId' clock =
     [(''check_status'', JBool True),
      (''request_id'', (case requestId' of None \<Rightarrow> JNull | Some s \<Rightarrow> JStr s)),
      (''timestamp'', JIso clock)]"

definition toastPollComplete :: toast where
  "toastPollComplete =
     \<lparr>title = [0xD83C, 0xDF89] @ ascii '' Epic Transformation Complete! '' @ [0xD83C, 0xDF89],
      description = ascii ''Behold your mighty caveman form! The ancestors are proud!'',
      destructive = False\<rparr>"

definition toastTakingLong :: toast where
  "toastTakingLong =
     \<lparr>title = ascii ''Cave Magic Taking Long!'',
      description = ascii ''Video still processing. Try refreshing or check back later!'',
      destructive = True\<rparr>"

text \<open>
  The call itself: \<^verbatim>\<open>setInterval(..., 5000)\<close> and \<^verbatim>\<open>setTimeout(..., 360000)\<close>.
  \<open>requestId'\<close> and \<open>isProcessing'\<close> are the constants of the render whose
  \<^verbatim>\<open>startPollingForVideo\<close> is called.
\<close>

definition startPollingForVideo :: "jsstring option \<Rightarrow> bool \<Rightarrow> world \<Rightarrow> world" where
  "startPollingForVideo requestId' isProcessing' w =
     (let pollInterval = nextId w
      in later 360000 (Deadline pollInterval isProcessing')
           (later 5000 (PollTick pollInterval requestId')
              (w\<lparr>active := active w @ [pollInterval], nextId := pollInterval + 1\<rparr>)))"

text \<open>
  The interval callback up to \<^verbatim>\<open>await fetch\<close>. An interval that was cleared does
  not fire; one that fires is due again 5000 ms later.
\<close>

definition pollTick :: "environment \<Rightarrow> nat \<Rightarrow> jsstring option \<Rightarrow> world \<Rightarrow> world" where
  "pollTick env pollInterval requestId' w =
     (if pollInterval \<notin> set (active w) then w
      else case probeNet env pollInterval (now w) of
        (latency, outcome) \<Rightarrow>
          later latency (PollReply pollInterval outcome)
            (later 5000 (PollTick pollInterval requestId')
               (w\<lparr>requests := requests w @
                     [\<lparr>sentAt = now w, sentBy = Probe pollInterval,
                       body = probePayload requestId' (now w)\<rparr>]\<rparr>)))"

text \<open>The branch of the interval callback taken on a result with a video.\<close>

definition pollSuccess :: "nat \<Rightarrow> AnalysisResponse \<Rightarrow> world \<Rightarrow> world" where
  "pollSuccess pollInterval result w =
     progressEffect (comp w)
       (later 3000 HideAnimation
          (showToast toastPollComplete
             (w\<lparr>comp := (comp w)\<lparr>videoUrl := video_url result, isProcessing := False,
                                  progress := 100, showSuccessAnimation := True\<rparr>,
                active := removeAll pollInterval (active w)\<rparr>)))"

text \<open>
  The interval callback after \<^verbatim>\<open>await fetch\<close>: a rejected fetch or body is caught
  and logged, a response that is not \<^verbatim>\<open>ok\<close> or has no video is dropped.
\<close>

definition pollReply :: "nat \<Rightarrow> fetch_outcome \<Rightarrow> world \<Rightarrow> world" where
  "pollReply pollInterval outcome w =
     (case outcome of
        Rejects \<Rightarrow> w
      | Responds code parsed \<Rightarrow>
          (if ok code then
             (case parsed of
                None \<Rightarrow> w
              | Some result \<Rightarrow>
                  (if successWithVideo result then pollSuccess pollInterval result w else w))
           else w))"

text \<open>The timeout callback.\<close>

definition deadline :: "nat \<Rightarrow> bool \<Rightarrow> world \<Rightarrow> world" where
  "deadline pollInterval isProcessing' w =
     (let w1 = w\<lparr>active := removeAll pollInterval (active w)\<rparr>
      in if isProcessing'
         then progressEffect (comp w1)
                (showToast toastTakingLong (w1\<lparr>comp := (comp w1)\<lparr>isProcessing := False\<rparr>\<rparr>))
         else w1)"

subsection \<open>\<^verbatim>\<open>analyzeImage\<close>\<close>

definition toastNoPicture :: toast where
  "toastNoPicture =
     \<lparr>title = ascii ''No Picture!'',
      description = ascii ''Caveman need picture first! Upload image please.'',
      destructive = True\<rparr>"

definition toastComplete :: "AnalysisResponse \<Rightarrow> toast" where
  "toastComplete result =
     \<lparr>title = [0xD83C, 0xDF89] @ ascii '' Epic Transformation Complete! '' @ [0xD83C, 0xDF89],
      description = orElse (message result)
         (ascii ''Behold your mighty caveman form! The ancestors are proud!''),
      destructive = False\<rparr>"

definition toastWorking :: toast where
  "toastWorking =
     \<lparr>title = ascii ''Cave Magic Working!'',
      description =
         ascii ''This process typically takes 2-4 minutes. Please keep this tab open!'',
      destructive = False\<rparr>"

definition toastAngry :: "AnalysisResponse \<Rightarrow> toast" where
  "toastAngry result =
     \<lparr>title = ascii ''Cave Spirits Angry!'',
      description = orElse (message result) (ascii ''Something went wrong with cave magic!''),
      destructive = True\<rparr>"

definition toastFailed :: toast where
  "toastFailed =
     \<lparr>title = ascii ''Cave Magic Failed!'',
      description = ascii
         ''All attempts failed. Please try manually executing your n8n workflow first, then retry.'',
      destructive = True\<rparr>"

text \<open>The three branches on the result of \<^verbatim>\<open>makeRequest\<close>.\<close>

definition submitSuccess :: "AnalysisResponse \<Rightarrow> world \<Rightarrow> world" where
  "submitSuccess result w =
     later 3000 HideAnimation
       (showToast (toastComplete result)
          (w\<lparr>comp := (comp w)\<lparr>videoUrl := video_url result, isProcessing := False,
                               progress := 100, showSuccessAnimation := True\<rparr>\<rparr>))"

definition submitAccepted ::
  "jsstring option \<Rightarrow> bool \<Rightarrow> AnalysisResponse \<Rightarrow> world \<Rightarrow> world" where
  "submitAccepted requestId' isProcessing' result w =
     startPollingForVideo requestId' isProcessing'
       (showToast toastWorking
          (w\<lparr>comp := (comp w)\<lparr>isProcessing := True, processingStartTime := Some (now w),
                               requestId := (if truthy (request_id result)
                                             then request_id result
                                             else requestId (comp w))\<rparr>\<rparr>))"

text \<open>
  \<^verbatim>\<open>analyzeImage\<close> from the point where the promise of \<^verbatim>\<open>makeRequest\<close> settles,
  with the \<^verbatim>\<open>catch\<close> and \<^verbatim>\<open>finally\<close> blocks. \<open>requestId'\<close> and \<open>isProcessing'\<close>
  are the constants of the render in which the button was pressed: they are what the
  \<^verbatim>\<open>startPollingForVideo\<close> of that render has captured.
\<close>

definition settle ::
  "jsstring option \<Rightarrow> bool \<Rightarrow> failure + AnalysisResponse \<Rightarrow> world \<Rightarrow> world" where
  "settle requestId' isProcessing' outcome w =
     (let w1 = (case outcome of
                  Inl error \<Rightarrow> showToast toastFailed w
                | Inr result \<Rightarrow>
                    (if successWithVideo result then submitSuccess result w
                     else if status result = ascii ''success''
                     then submitAccepted requestId' isProcessing' result w
                     else showToast (toastAngry result) w));
          w2 = w1\<lparr>comp := (comp w1)\<lparr>isAnalyzing := False\<rparr>\<rparr>
      in progressEffect (comp w) w2)"

text \<open>
  \<^verbatim>\<open>analyzeImage\<close> up to \<^verbatim>\<open>await makeRequest()\<close>. What \<^verbatim>\<open>makeRequest\<close> shows and
  sends depends on the file, the attempt number and the clock only, so its toasts
  and requests are entered in the logs, with their times, when it starts. The
  function that runs is the one of the render that drew the pressed button, so the
  continuation keeps the \<^verbatim>\<open>requestId\<close> and \<^verbatim>\<open>isProcessing\<close> of the state at the
  press.
\<close>

definition analyzeImage :: "environment \<Rightarrow> world \<Rightarrow> world" where
  "analyzeImage env w =
     (case selectedImage (comp w) of
        None \<Rightarrow> showToast toastNoPicture w
      | Some picture \<Rightarrow>
          (case makeRequest picture (submitNet env (now w)) (now w) 1 of
             (acts, outcome, t) \<Rightarrow>
               w\<lparr>comp := (comp w)\<lparr>isAnalyzing := True\<rparr>,
                 toasts := toasts w @ toastsOf acts,
                 requests := requests w @
                   map (\<lambda>(t, p). \<lparr>sentAt = t, sentBy = Submission, body = p\<rparr>) (fetchesOf acts),
                 queue := enqueue t
                   (Settle (requestId (comp w)) (isProcessing (comp w)) outcome) (queue w)\<rparr>))"

text \<open>The button is \<^verbatim>\<open>disabled={!selectedImage || isAnalyzing}\<close>.\<close>

definition click :: "environment \<Rightarrow> world \<Rightarrow> world" where
  "click env w =
     (if selectedImage (comp w) = None \<or> isAnalyzing (comp w) then w
      else analyzeImage env w)"

subsection \<open>The event loop\<close>

definition handle :: "environment \<Rightarrow> task \<Rightarrow> world \<Rightarrow> world" where
  "handle env x w =
     (case x of
        Click \<Rightarrow> click env w
      | Settle requestId' isProcessing' outcome \<Rightarrow> settle requestId' isProcessing' outcome w
      | PollTick pollInterval requestId' \<Rightarrow> pollTick env pollInterval requestId' w
      | PollReply pollInterval outcome \<Rightarrow> pollReply pollInterval outcome w
      | Deadline pollInterval isProcessing' \<Rightarrow> deadline pollInterval isProcessing' w
      | HideAnimation \<Rightarrow> w\<lparr>comp := (comp w)\<lparr>showSuccessAnimation := False\<rparr>\<rparr>
      | ProgressTick interval \<Rightarrow> progressTick interval w)"

text \<open>One turn of the event loop runs the first pending callback at its due time.\<close>

definition step :: "environment \<Rightarrow> world \<Rightarrow> world" where
  "step env w =
     (case queue w of
        [] \<Rightarrow> w
      | (t, x) # q \<Rightarrow> handle env x (w\<lparr>now := t, queue := q\<rparr>))"

fun run :: "environment \<Rightarrow> nat \<Rightarrow> world \<Rightarrow> world" where
  "run env 0 w = w"
| "run env (Suc n) w = run env n (step env w)"

text \<open>The component as mounted at time \<open>t\<close> with a picture chosen, and the user's presses.\<close>

definition mounted :: "nat \<Rightarrow> image_file \<Rightarrow> nat list \<Rightarrow> world" where
  "mounted t picture presses =
     \<lparr>now = t,
      comp = \<lparr>selectedImage = Some picture, isAnalyzing = False, videoUrl = None,
              isProcessing = False, requestId = None, processingStartTime = None,
              progress = 0, showSuccessAnimation = False\<rparr>,
      toasts = [], requests = [], active = [], nextId = 0, progressTimer = None,
      queue = map (\<lambda>t. (t, Click)) presses\<rparr>"

section \<open>Notions used in the properties\<close>

text \<open>
  The environments in which the \<^verbatim>\<open>try\<close> block of an attempt throws: the file
  cannot be read, \<^verbatim>\<open>fetch\<close> rejects, the response is not \<^verbatim>\<open>ok\<close>, or its body
  cannot be parsed.
\<close>

definition attemptFails :: "attempt_env \<Rightarrow> bool" where
  "attemptFails e \<longleftrightarrow>
     readData e = None \<or> fetched e = Rejects
     \<or> (\<exists>code parsed. fetched e = Responds code parsed \<and> (\<not> ok code \<or> parsed = None))"

text \<open>The number in the field \<^verbatim>\<open>attempt\<close> of a request body (0 when there is none).\<close>

definition attemptOf :: "payload \<Rightarrow> nat" where
  "attemptOf p = (case map_of p ''attempt'' of Some (JNum k) \<Rightarrow> k | _ \<Rightarrow> 0)"

text \<open>
  The replies on which the interval callback acts: the response is \<^verbatim>\<open>ok\<close>, its body
  parses, and the result passes the check for a video.
\<close>

definition readyReply :: "fetch_outcome \<Rightarrow> bool" where
  "readyReply outcome =
     (case outcome of
        Rejects \<Rightarrow> False
      | Responds code parsed \<Rightarrow>
          ok code \<and> (case parsed of None \<Rightarrow> False | Some result \<Rightarrow> successWithVideo result))"

text \<open>The probes that the polling loop with interval id \<open>l\<close> has sent.\<close>

definition probesOf :: "nat \<Rightarrow> world \<Rightarrow> request list" where
  "probesOf l w = filter (\<lambda>r. sentBy r = Probe l) (requests w)"

text \<open>
  The event loop runs callbacks in the order of their due times, and no pending
  callback is due in the past.
\<close>

definition timely :: "world \<Rightarrow> bool" where
  "timely w \<longleftrightarrow> sorted (map fst (queue w)) \<and> (\<forall>e\<in>set (queue w). now w \<le> fst e)"

text \<open>The interval id a pending callback belongs to, if any.\<close>

fun taskId :: "task \<Rightarrow> nat option" where
  "taskId (PollTick l r) = Some l"
| "taskId (PollReply l outcome) = Some l"
| "taskId (Deadline l b) = Some l"
| "taskId (ProgressTick e) = Some e"
| "taskId x = None"

text \<open>
  What holds of every world the mounted component can reach: the callbacks are in
  order, and the ids in pending callbacks, in sent probes and of running intervals
  have all been given out already (\<open>nextId\<close> is the next id to give out).
\<close>

definition wellFormed :: "world \<Rightarrow> bool" where
  "wellFormed w \<longleftrightarrow>
     timely w
     \<and> (\<forall>e\<in>set (queue w). \<forall>i. taskId (snd e) = Some i \<longrightarrow> i < nextId w)
     \<and> (\<forall>p\<in>set (requests w). \<forall>i. sentBy p = Probe i \<longrightarrow> i < nextId w)
     \<and> (\<forall>i\<in>set (active w). i < nextId w)"

text \<open>
  What holds of the polling loop with interval id \<open>l\<close> started at \<open>t0\<close>, from its
  start on: its interval callbacks are due, and its probes were sent, at
  \<open>t0 + 5000 * k\<close> for some \<open>k \<ge> 1\<close>, for the probes with \<open>k \<le> 72\<close>; and while
  its interval is not cleared, its deadline callback is pending at \<open>t0 + 360000\<close>.
\<close>

definition loopInv :: "nat \<Rightarrow> nat \<Rightarrow> world \<Rightarrow> bool" where
  "loopInv l t0 w \<longleftrightarrow>
     timely w \<and> l < nextId w
     \<and> (\<forall>e\<in>set (queue w). \<forall>r. snd e = PollTick l r \<longrightarrow>
           (\<exists>k\<ge>1. fst e = t0 + 5000 * k))
     \<and> (\<forall>p\<in>set (probesOf l w). \<exists>k\<ge>1. k \<le> 72 \<and> sentAt p = t0 + 5000 * k)
     \<and> (l \<in> set (active w) \<longrightarrow> (\<exists>b. (t0 + 360000, Deadline l b) \<in> set (queue w)))"

section \<open>Sample runs\<close>

definition picture0 :: image_file where
  "picture0 = \<lparr>name = ascii ''me.png'', ftype = ascii ''image/png''\<rparr>"

definition reply :: "string \<Rightarrow> jsstring option \<Rightarrow> jsstring option \<Rightarrow> AnalysisResponse" where
  "reply st url rid =
     \<lparr>status = ascii st, video_url = url, message = None, processing_status = None,
      created_at = None, request_id = rid\<rparr>"

text \<open>An attempt whose file read is immediate and whose fetch takes 100 ms.\<close>

definition answers :: "fetch_outcome \<Rightarrow> attempt_env" where
  "answers outcome = \<lparr>readMs = 0, readData = Some (ascii ''QUJD''), fetchMs = 100, fetched = outcome\<rparr>"

text \<open>
  The service accepts every submission with the handle \<^verbatim>\<open>job-1\<close> and no video, and
  answers every probe after 100 ms with \<^verbatim>\<open>{status: "processing"}\<close>.
\<close>

definition envAccepted :: environment where
  "envAccepted =
     \<lparr>submitNet = (\<lambda>t k. answers (Responds 200 (Some (reply ''success'' None (Some (ascii ''job-1'')))))),
      probeNet = (\<lambda>l t. (100, Responds 200 (Some (reply ''processing'' None None))))\<rparr>"

text \<open>As before, but every probe is answered after 100 ms with a video.\<close>

definition envReady :: environment where
  "envReady =
     \<lparr>submitNet = (\<lambda>t k. answers (Responds 200 (Some (reply ''success'' None (Some (ascii ''job-1'')))))),
      probeNet = (\<lambda>l t. (100, Responds 200
         (Some (reply ''success'' (Some (ascii ''https://cdn.example/v.mp4'')) None))))\<rparr>"

text \<open>As \<open>envAccepted\<close>, but every probe is answered only after 7000 ms.\<close>

definition envSlow :: environment where
  "envSlow =
     \<lparr>submitNet = (\<lambda>t k. answers (Responds 200 (Some (reply ''success'' None (Some (ascii ''job-1'')))))),
      probeNet = (\<lambda>l t. (7000, Responds 200 (Some (reply ''processing'' None None))))\<rparr>"

text \<open>
  Two submissions are accepted; the probes of the first polling loop (interval 0) are
  answered with a video, those of the second (interval 2) with
  \<^verbatim>\<open>{status: "processing"}\<close>.
\<close>

definition envTwoJobs :: environment where
  "envTwoJobs =
     \<lparr>submitNet = (\<lambda>t k. answers (Responds 200 (Some (reply ''success'' None
         (Some (if t = 1000 then ascii ''job-1'' else ascii ''job-2'')))))),
      probeNet = (\<lambda>l t. (100, Responds 200 (Some
         (if l = 0 then reply ''success'' (Some (ascii ''https://cdn.example/old.mp4'')) None
          else reply ''processing'' None None))))\<rparr>"

text \<open>The first attempt gets a 200 response whose body is not JSON, the second is accepted.\<close>

definition envBadBody :: "nat \<Rightarrow> attempt_env" where
  "envBadBody k =
     (if k = 1 then answers (Responds 200 None)
      else answers (Responds 200 (Some (reply ''success'' None None))))"

text \<open>The network is down: every \<^verbatim>\<open>fetch\<close> of a submission rejects.\<close>

definition envDown :: "nat \<Rightarrow> attempt_env" where
  "envDown k = answers Rejects"

text \<open>The service answers the submission with \<^verbatim>\<open>{status: "error"}\<close>.\<close>

definition envRejected :: "nat \<Rightarrow> attempt_env" where
  "envRejected k = answers (Responds 200 (Some (reply ''error'' None None)))"

section \<open>Properties of \<^verbatim>\<open>makeRequest\<close>\<close>

lemma fetchesOf_append: "fetchesOf (xs @ ys) = fetchesOf xs @ fetchesOf ys"
  by (induction xs rule: fetchesOf.induct) simp_all

lemma sleepsOf_append: "sleepsOf (xs @ ys) = sleepsOf xs @ sleepsOf ys"
  by (induction xs rule: sleepsOf.induct) simp_all

lemma attemptOnce_fails:
  "(\<exists>err. fst (snd (attemptOnce f e t k)) = Inl err) \<longleftrightarrow> attemptFails e"
  by (auto simp: attemptOnce_def attemptFails_def Let_def split: option.splits fetch_outcome.splits)

lemma attemptOnce_fetches:
  "fetchesOf (fst (attemptOnce f e t k)) =
     (case readData e of None \<Rightarrow> []
      | Some b \<Rightarrow> [(t + readMs e, submitPayload b f (t + readMs e) k)])"
  by (auto simp: attemptOnce_def Let_def split: option.splits fetch_outcome.splits)

lemma attemptOnce_sleeps: "sleepsOf (fst (attemptOnce f e t k)) = []"
  by (auto simp: attemptOnce_def Let_def split: option.splits fetch_outcome.splits)

lemma attemptOnce_time: "snd (snd (attemptOnce f e t k)) \<ge> t + readMs e"
  by (auto simp: attemptOnce_def Let_def split: option.splits fetch_outcome.splits)

lemma attemptOnce_parts:
  assumes "attemptOnce f e t k = (a, r, t')"
  shows "sleepsOf a = []" and "length (fetchesOf a) \<le> 1"
    and "fetchesOf a = (case readData e of None \<Rightarrow> []
           | Some b \<Rightarrow> [(t + readMs e, submitPayload b f (t + readMs e) k)])"
    and "t + readMs e \<le> t'"
  using assms attemptOnce_sleeps [of f e t k] attemptOnce_fetches [of f e t k]
    attemptOnce_time [where f=f and e=e and t=t and k=k]
  by (auto split: option.splits)

text \<open>The recursion unrolled: the third attempt is the last one.\<close>

lemma makeRequest_3: "makeRequest f env t 3 = attemptOnce f (env 3) t 3"
  by (simp add: makeRequest.simps [of f env t 3] split: prod.splits sum.splits)

lemma makeRequest_2:
  "makeRequest f env t 2 =
     (case attemptOnce f (env 2) t 2 of
        (a, Inr r, t') \<Rightarrow> (a, Inr r, t')
      | (a, Inl e, t') \<Rightarrow>
          (case attemptOnce f (env 3) (t' + 4000) 3 of (a', r) \<Rightarrow> (a @ Sleep t' 4000 # a', r)))"
  by (simp add: makeRequest.simps [of f env t 2] makeRequest_3 split: prod.splits sum.splits)

lemma makeRequest_1:
  "makeRequest f env t 1 =
     (case attemptOnce f (env 1) t 1 of
        (a, Inr r, t') \<Rightarrow> (a, Inr r, t')
      | (a, Inl e, t') \<Rightarrow>
          (case makeRequest f env (t' + 2000) 2 of (a', r) \<Rightarrow> (a @ Sleep t' 2000 # a', r)))"
  using makeRequest.simps [of f env t 1]
  by (simp add: numeral_2_eq_2 split: prod.splits sum.splits)

lemma makeRequest_shape:
  assumes "attemptOnce f (env 1) t 1 = (a1, r1, t1)"
    and "attemptOnce f (env 2) (t1 + 2000) 2 = (a2, r2, t2)"
    and "attemptOnce f (env 3) (t2 + 4000) 3 = (a3, r3, t3)"
  shows "makeRequest f env t 1 =
     (case r1 of
        Inr x \<Rightarrow> (a1, r1, t1)
      | Inl x \<Rightarrow>
          (case r2 of
             Inr y \<Rightarrow> (a1 @ Sleep t1 2000 # a2, r2, t2)
           | Inl y \<Rightarrow> (a1 @ Sleep t1 2000 # a2 @ Sleep t2 4000 # a3, r3, t3)))"
  unfolding makeRequest_1 makeRequest_2 using assms by (simp split: sum.splits)

text \<open>
  Claim C5, as the code has it. \<^verbatim>\<open>makeRequest\<close> retries every failure thrown inside
  an attempt: a rejected \<^verbatim>\<open>fetch\<close>, a response that is not \<^verbatim>\<open>ok\<close>, and also a
  2xx response whose body cannot be parsed and a failure to read the picture. It sends
  at most three requests; the waits are none, 2000 ms, or 2000 ms and then 4000 ms,
  and there is a wait exactly when the first attempt failed (so none before it). A
  response that was received and parsed, whatever its \<^verbatim>\<open>status\<close> field, is returned
  at once and never retried. After a third failure the result is that failure, and
  no fourth attempt is made: the result does not depend on any later environment.
\<close>

theorem C5_retry_policy:
  "length (fetchesOf (fst (makeRequest f env t 1))) \<le> 3
   \<and> sleepsOf (fst (makeRequest f env t 1)) \<in> {[], [2000], [2000, 4000]}
   \<and> (sleepsOf (fst (makeRequest f env t 1)) \<noteq> [] \<longleftrightarrow> attemptFails (env 1))
   \<and> (\<not> attemptFails (env 1) \<longrightarrow> makeRequest f env t 1 = attemptOnce f (env 1) t 1)
   \<and> (readData (env 1) = Some b \<and> fetched (env 1) = Responds code (Some result) \<and> ok code \<longrightarrow>
        fst (snd (makeRequest f env t 1)) = Inr result
        \<and> length (fetchesOf (fst (makeRequest f env t 1))) = 1)
   \<and> (attemptFails (env 1) \<and> \<not> attemptFails (env 2) \<longrightarrow>
        sleepsOf (fst (makeRequest f env t 1)) = [2000]
        \<and> (\<exists>result. fst (snd (makeRequest f env t 1)) = Inr result))
   \<and> (attemptFails (env 1) \<and> attemptFails (env 2) \<longrightarrow>
        sleepsOf (fst (makeRequest f env t 1)) = [2000, 4000]
        \<and> (attemptFails (env 3) \<longleftrightarrow> (\<exists>error. fst (snd (makeRequest f env t 1)) = Inl error)))
   \<and> (env' 1 = env 1 \<and> env' 2 = env 2 \<and> env' 3 = env 3 \<longrightarrow>
        makeRequest f env' t 1 = makeRequest f env t 1)"
proof -
  obtain a1 r1 t1 where A1: "attemptOnce f (env 1) t 1 = (a1, r1, t1)"
    by (cases "attemptOnce f (env 1) t 1") auto
  obtain a2 r2 t2 where A2: "attemptOnce f (env 2) (t1 + 2000) 2 = (a2, r2, t2)"
    by (cases "attemptOnce f (env 2) (t1 + 2000) 2") auto
  obtain a3 r3 t3 where A3: "attemptOnce f (env 3) (t2 + 4000) 3 = (a3, r3, t3)"
    by (cases "attemptOnce f (env 3) (t2 + 4000) 3") auto
  note shape = makeRequest_shape [OF A1 A2 A3]
  note p1 = attemptOnce_parts [OF A1] and p2 = attemptOnce_parts [OF A2]
    and p3 = attemptOnce_parts [OF A3]
  have f1: "attemptFails (env 1) \<longleftrightarrow> (\<exists>x. r1 = Inl x)"
    using attemptOnce_fails [of f "env 1" t 1] A1 by simp
  have f2: "attemptFails (env 2) \<longleftrightarrow> (\<exists>x. r2 = Inl x)"
    using attemptOnce_fails [of f "env 2" "t1 + 2000" 2] A2 by simp
  have f3: "attemptFails (env 3) \<longleftrightarrow> (\<exists>x. r3 = Inl x)"
    using attemptOnce_fails [of f "env 3" "t2 + 4000" 3] A3 by simp
  have c1: "length (fetchesOf (fst (makeRequest f env t 1))) \<le> 3"
    unfolding shape using p1(2) p2(2) p3(2) by (simp add: fetchesOf_append split: sum.splits)
  have c2: "sleepsOf (fst (makeRequest f env t 1)) \<in> {[], [2000], [2000, 4000]}"
    unfolding shape using p1(1) p2(1) p3(1) by (simp add: sleepsOf_append split: sum.splits)
  have c3: "sleepsOf (fst (makeRequest f env t 1)) \<noteq> [] \<longleftrightarrow> attemptFails (env 1)"
    unfolding shape using p1(1) p2(1) p3(1) f1
    by (auto simp: sleepsOf_append split: sum.splits)
  have c4: "\<not> attemptFails (env 1) \<longrightarrow> makeRequest f env t 1 = attemptOnce f (env 1) t 1"
    unfolding shape using f1 A1 by (auto split: sum.splits)
  have c5: "readData (env 1) = Some b \<and> fetched (env 1) = Responds code (Some result) \<and> ok code \<longrightarrow>
        fst (snd (makeRequest f env t 1)) = Inr result
        \<and> length (fetchesOf (fst (makeRequest f env t 1))) = 1"
  proof
    assume h: "readData (env 1) = Some b \<and> fetched (env 1) = Responds code (Some result) \<and> ok code"
    then have "r1 = Inr result" using A1 by (auto simp: attemptOnce_def Let_def)
    then show "fst (snd (makeRequest f env t 1)) = Inr result
        \<and> length (fetchesOf (fst (makeRequest f env t 1))) = 1"
      unfolding shape using p1(3) h by simp
  qed
  have c6: "attemptFails (env 1) \<and> \<not> attemptFails (env 2) \<longrightarrow>
        sleepsOf (fst (makeRequest f env t 1)) = [2000]
        \<and> (\<exists>result. fst (snd (makeRequest f env t 1)) = Inr result)"
    unfolding shape using p1(1) p2(1) f1 f2
    by (auto simp: sleepsOf_append split: sum.splits)
  have c7: "attemptFails (env 1) \<and> attemptFails (env 2) \<longrightarrow>
        sleepsOf (fst (makeRequest f env t 1)) = [2000, 4000]
        \<and> (attemptFails (env 3) \<longleftrightarrow> (\<exists>error. fst (snd (makeRequest f env t 1)) = Inl error))"
    unfolding shape using p1(1) p2(1) p3(1) f1 f2 f3
    by (auto simp: sleepsOf_append split: sum.splits)
  have c8: "env' 1 = env 1 \<and> env' 2 = env 2 \<and> env' 3 = env 3 \<longrightarrow>
        makeRequest f env' t 1 = makeRequest f env t 1"
  proof
    assume "env' 1 = env 1 \<and> env' 2 = env 2 \<and> env' 3 = env 3"
    then have e: "env' 1 = env 1" "env' 2 = env 2" "env' 3 = env 3" by blast+
    show "makeRequest f env' t 1 = makeRequest f env t 1"
      unfolding makeRequest_1 makeRequest_2 e by (rule refl)
  qed
  from c1 c2 c3 c4 c5 c6 c7 c8 show ?thesis by blast
qed

text \<open>
  With the network down, three requests are sent, 2000 ms and 4000 ms apart from the
  failures before them, and the third failure is the result; a submission answered
  with \<^verbatim>\<open>{status: "error"}\<close> is sent once.
\<close>

theorem C5_retry_policy_witness:
  "attemptFails (envDown 1) \<and> attemptFails (envDown 2) \<and> attemptFails (envDown 3)
   \<and> sleepsOf (fst (makeRequest picture0 envDown 1000 1)) = [2000, 4000]
   \<and> length (fetchesOf (fst (makeRequest picture0 envDown 1000 1))) = 3
   \<and> fst (snd (makeRequest picture0 envDown 1000 1)) = Inl NetworkError
   \<and> readData (envRejected 1) = Some (ascii ''QUJD'')
   \<and> fetched (envRejected 1) = Responds 200 (Some (reply ''error'' None None)) \<and> ok 200
   \<and> fst (snd (makeRequest picture0 envRejected 1000 1)) = Inr (reply ''error'' None None)
   \<and> length (fetchesOf (fst (makeRequest picture0 envRejected 1000 1))) = 1"
  using C5_retry_policy [of picture0 envDown 1000 "ascii ''QUJD''" 200 "reply ''error'' None None" envDown]
    C5_retry_policy [of picture0 envRejected 1000 "ascii ''QUJD''" 200 "reply ''error'' None None" envRejected]
  unfolding makeRequest_1 makeRequest_2
  by (simp add: attemptFails_def envDown_def envRejected_def answers_def ok_def
        attemptOnce_def Let_def)

text \<open>
  Claim C5 as stated fails: a 200 response whose body is not JSON is neither a network
  error nor a non-2xx response, and the submission is sent again 2000 ms later.
\<close>

theorem C5_unparsable_body_retried:
  "fetched (envBadBody 1) = Responds 200 None \<and> ok 200
   \<and> sleepsOf (fst (makeRequest picture0 envBadBody 1000 1)) = [2000]
   \<and> map fst (fetchesOf (fst (makeRequest picture0 envBadBody 1000 1))) = [1000, 3100]"
  unfolding makeRequest_1 makeRequest_2
  by (simp add: envBadBody_def answers_def ok_def attemptOnce_def Let_def)

lemma attemptOf_submitPayload [simp]: "attemptOf (submitPayload b f t k) = k"
  by (simp add: attemptOf_def submitPayload_def)

lemma keys_submitPayload [simp]:
  "map fst (submitPayload b f t k) =
     [''image'', ''filename'', ''mimeType'', ''timestamp'', ''trigger_workflow'', ''attempt'']"
  by (simp add: submitPayload_def)

text \<open>
  Claim C7, as the code has it. Every body that \<^verbatim>\<open>makeRequest\<close> sends has exactly
  the six fields \<^verbatim>\<open>image\<close>, \<^verbatim>\<open>filename\<close>, \<^verbatim>\<open>mimeType\<close>, \<^verbatim>\<open>timestamp\<close>,
  \<^verbatim>\<open>trigger_workflow\<close> (always true) and \<^verbatim>\<open>attempt\<close>, in this order; it is the
  payload of one of the attempts 1, 2, 3, built from the data read in that attempt,
  and its timestamp is the clock reading at which it is sent. Along the requests of
  one submission the attempt number strictly increases and each timestamp is at
  least 2000 ms later than the one before; when every file read succeeds, the
  attempt numbers are 1, 2, ... without a gap.
\<close>

theorem C7_submission_body:
  "(\<forall>x \<in> set (fetchesOf (fst (makeRequest f env t 1))).
      map fst (snd x) =
        [''image'', ''filename'', ''mimeType'', ''timestamp'', ''trigger_workflow'', ''attempt'']
      \<and> map_of (snd x) ''timestamp'' = Some (JIso (fst x))
      \<and> map_of (snd x) ''trigger_workflow'' = Some (JBool True)
      \<and> (\<exists>k\<in>{1, 2, 3}. \<exists>b. readData (env k) = Some b
                \<and> snd x = submitPayload b f (fst x) k))
   \<and> sorted_wrt (\<lambda>x y. attemptOf (snd x) < attemptOf (snd y) \<and> fst x + 2000 \<le> fst y)
        (fetchesOf (fst (makeRequest f env t 1)))
   \<and> ((\<forall>k. readData (env k) \<noteq> None) \<longrightarrow>
        map (\<lambda>x. attemptOf (snd x)) (fetchesOf (fst (makeRequest f env t 1)))
          = [1 ..< Suc (length (fetchesOf (fst (makeRequest f env t 1))))])"
proof -
  obtain a1 r1 t1 where A1: "attemptOnce f (env 1) t 1 = (a1, r1, t1)"
    by (cases "attemptOnce f (env 1) t 1") auto
  obtain a2 r2 t2 where A2: "attemptOnce f (env 2) (t1 + 2000) 2 = (a2, r2, t2)"
    by (cases "attemptOnce f (env 2) (t1 + 2000) 2") auto
  obtain a3 r3 t3 where A3: "attemptOnce f (env 3) (t2 + 4000) 3 = (a3, r3, t3)"
    by (cases "attemptOnce f (env 3) (t2 + 4000) 3") auto
  note shape = makeRequest_shape [OF A1 A2 A3]
  note p1 = attemptOnce_parts [OF A1] and p2 = attemptOnce_parts [OF A2]
    and p3 = attemptOnce_parts [OF A3]
  have ts: "map_of (submitPayload b f u k) ''timestamp'' = Some (JIso u)"
    "map_of (submitPayload b f u k) ''trigger_workflow'' = Some (JBool True)" for b u k
    by (simp_all add: submitPayload_def)
  let ?F = "fetchesOf (fst (makeRequest f env t 1))"
  let ?P = "\<lambda>x. map fst (snd x) =
        [''image'', ''filename'', ''mimeType'', ''timestamp'', ''trigger_workflow'', ''attempt'']
      \<and> map_of (snd x) ''timestamp'' = Some (JIso (fst x))
      \<and> map_of (snd x) ''trigger_workflow'' = Some (JBool True)
      \<and> (\<exists>k\<in>{1, 2, 3}. \<exists>b. readData (env k) = Some b
                \<and> snd x = submitPayload b f (fst x) k)"
  have sub: "set ?F \<subseteq> set (fetchesOf a1) \<union> set (fetchesOf a2) \<union> set (fetchesOf a3)"
    unfolding shape by (auto simp: fetchesOf_append split: sum.splits)
  have e1: "?P x" if "x \<in> set (fetchesOf a1)" for x
  proof -
    from that p1(3) obtain b where "readData (env 1) = Some b"
      "x = (t + readMs (env 1), submitPayload b f (t + readMs (env 1)) 1)"
      by (auto split: option.splits)
    then show ?thesis by (simp add: ts)
  qed
  have e2: "?P x" if "x \<in> set (fetchesOf a2)" for x
  proof -
    from that p2(3) obtain b where "readData (env 2) = Some b"
      "x = (t1 + 2000 + readMs (env 2), submitPayload b f (t1 + 2000 + readMs (env 2)) 2)"
      by (auto split: option.splits)
    then show ?thesis by (simp add: ts)
  qed
  have e3: "?P x" if "x \<in> set (fetchesOf a3)" for x
  proof -
    from that p3(3) obtain b where "readData (env 3) = Some b"
      "x = (t2 + 4000 + readMs (env 3), submitPayload b f (t2 + 4000 + readMs (env 3)) 3)"
      by (auto split: option.splits)
    then show ?thesis by (simp add: ts)
  qed
  have c1: "\<forall>x \<in> set ?F. ?P x"
    using sub e1 e2 e3 by blast
  let ?R = "\<lambda>x y. attemptOf (snd x) < attemptOf (snd y) \<and> fst x + 2000 \<le> fst y"
  have s1: "sorted_wrt ?R (fetchesOf a1)" and s2: "sorted_wrt ?R (fetchesOf a2)"
    and s3: "sorted_wrt ?R (fetchesOf a3)"
    using p1(3) p2(3) p3(3) by (simp_all split: option.splits)
  have r12: "?R x y" if "x \<in> set (fetchesOf a1)" "y \<in> set (fetchesOf a2)" for x y
    using that p1(3,4) p2(3) by (auto split: option.splits)
  have r23: "?R x y" if "x \<in> set (fetchesOf a2)" "y \<in> set (fetchesOf a3)" for x y
    using that p2(3,4) p3(3) by (auto split: option.splits)
  have r13: "?R x y" if "x \<in> set (fetchesOf a1)" "y \<in> set (fetchesOf a3)" for x y
    using that p1(3,4) p2(4) p3(3) by (auto split: option.splits)
  have c2: "sorted_wrt ?R ?F"
    unfolding shape using s1 s2 s3 r12 r23 r13
    by (auto simp: fetchesOf_append sorted_wrt_append split: sum.splits)
  have u: "[1..<Suc 1] = [1]" "[1..<Suc 2] = [1, 2]" "[1..<Suc 3] = [1, 2, 3]"
    by (simp_all add: upt_conv_Cons)
  have c3: "(\<forall>k. readData (env k) \<noteq> None) \<longrightarrow>
        map (\<lambda>x. attemptOf (snd x)) ?F = [1 ..< Suc (length ?F)]"
  proof
    assume "\<forall>k. readData (env k) \<noteq> None"
    then obtain b1 b2 b3 where "readData (env 1) = Some b1" "readData (env 2) = Some b2"
      "readData (env 3) = Some b3" by (meson option.exhaust)
    with p1(3) p2(3) p3(3) have "map (\<lambda>x. attemptOf (snd x)) (fetchesOf a1) = [1]"
      "map (\<lambda>x. attemptOf (snd x)) (fetchesOf a2) = [2]"
      "map (\<lambda>x. attemptOf (snd x)) (fetchesOf a3) = [3]"
      "length (fetchesOf a1) = 1" "length (fetchesOf a2) = 1" "length (fetchesOf a3) = 1"
      by simp_all
    then show "map (\<lambda>x. attemptOf (snd x)) ?F = [1 ..< Suc (length ?F)]"
      unfolding shape using u
      by (simp add: fetchesOf_append split: sum.splits)
  qed
  from c1 c2 c3 show ?thesis by blast
qed

text \<open>
  With the network down the three requests carry the attempts 1, 2 and 3 and the
  timestamps 1000, 3100 and 7200.
\<close>

theorem C7_submission_body_witness:
  "map (\<lambda>x. attemptOf (snd x)) (fetchesOf (fst (makeRequest picture0 envDown 1000 1))) = [1, 2, 3]
   \<and> map fst (fetchesOf (fst (makeRequest picture0 envDown 1000 1))) = [1000, 3100, 7200]
   \<and> (3100, submitPayload (ascii ''QUJD'') picture0 3100 2)
       \<in> set (fetchesOf (fst (makeRequest picture0 envDown 1000 1)))
   \<and> map fst (submitPayload (ascii ''QUJD'') picture0 3100 2) =
       [''image'', ''filename'', ''mimeType'', ''timestamp'', ''trigger_workflow'', ''attempt'']
   \<and> map_of (submitPayload (ascii ''QUJD'') picture0 3100 2) ''timestamp'' = Some (JIso 3100)
   \<and> readData (envDown 1) = Some (ascii ''QUJD'')"
proof -
  have f: "fetchesOf (fst (makeRequest picture0 envDown 1000 1)) =
     [(1000, submitPayload (ascii ''QUJD'') picture0 1000 1),
      (3100, submitPayload (ascii ''QUJD'') picture0 3100 2),
      (7200, submitPayload (ascii ''QUJD'') picture0 7200 3)]"
    unfolding makeRequest_1 makeRequest_2
    by (simp add: envDown_def answers_def attemptOnce_def Let_def)
  have ts: "map_of (submitPayload (ascii ''QUJD'') picture0 3100 2) ''timestamp'' = Some (JIso 3100)"
    by (simp add: submitPayload_def)
  show ?thesis
    using C7_submission_body [of picture0 envDown 1000] unfolding f
    by (simp add: ts envDown_def answers_def)
qed

text \<open>
  Claim C7 as stated fails: the body has a sixth field, \<^verbatim>\<open>trigger_workflow: true\<close>.
\<close>

theorem C7_trigger_workflow_field:
  "fetchesOf (fst (makeRequest picture0 envRejected 1000 1)) =
     [(1000, [(''image'', JStr (ascii ''QUJD'')), (''filename'', JStr (ascii ''me.png'')),
              (''mimeType'', JStr (ascii ''image/png'')), (''timestamp'', JIso 1000),
              (''trigger_workflow'', JBool True), (''attempt'', JNum 1)])]
   \<and> map (\<lambda>x. map fst (snd x)) (fetchesOf (fst (makeRequest picture0 envRejected 1000 1)))
       \<noteq> [[''image'', ''filename'', ''mimeType'', ''timestamp'', ''attempt'']]"
  unfolding makeRequest_1
  by (simp add: envRejected_def answers_def ok_def attemptOnce_def Let_def submitPayload_def
        picture0_def)

section \<open>Properties of the callbacks\<close>

lemma set_enqueue [simp]: "set (enqueue t x q) = insert (t, x) (set q)"
  by (induction t x q rule: enqueue.induct) auto

lemma later_fields [simp]:
  "comp (later ms x w) = comp w" "toasts (later ms x w) = toasts w"
  "requests (later ms x w) = requests w" "active (later ms x w) = active w"
  "nextId (later ms x w) = nextId w" "progressTimer (later ms x w) = progressTimer w"
  "now (later ms x w) = now w"
  "queue (later ms x w) = enqueue (now w + ms) x (queue w)"
  by (simp_all add: later_def)

lemma showToast_fields [simp]:
  "comp (showToast x w) = comp w" "toasts (showToast x w) = toasts w @ [(now w, x)]"
  "requests (showToast x w) = requests w" "active (showToast x w) = active w"
  "nextId (showToast x w) = nextId w" "progressTimer (showToast x w) = progressTimer w"
  "now (showToast x w) = now w" "queue (showToast x w) = queue w"
  by (simp_all add: showToast_def)

lemma progressEffect_fields [simp]:
  "comp (progressEffect old w) = comp w" "toasts (progressEffect old w) = toasts w"
  "requests (progressEffect old w) = requests w" "active (progressEffect old w) = active w"
  "now (progressEffect old w) = now w"
  by (simp_all add: progressEffect_def)

lemma progressEffect_nextId: "n \<le> nextId w \<Longrightarrow> n \<le> nextId (progressEffect old w)"
  by (simp add: progressEffect_def)

lemma progressEffect_queue: "A \<subseteq> set (queue w) \<Longrightarrow> A \<subseteq> set (queue (progressEffect old w))"
  by (auto simp: progressEffect_def)

lemma startPolling_fields [simp]:
  "comp (startPollingForVideo r b w) = comp w"
  "toasts (startPollingForVideo r b w) = toasts w"
  "requests (startPollingForVideo r b w) = requests w"
  "active (startPollingForVideo r b w) = active w @ [nextId w]"
  "nextId (startPollingForVideo r b w) = nextId w + 1"
  "now (startPollingForVideo r b w) = now w"
  "queue (startPollingForVideo r b w) =
     enqueue (now w + 360000) (Deadline (nextId w) b)
       (enqueue (now w + 5000) (PollTick (nextId w) r) (queue w))"
  by (simp_all add: startPollingForVideo_def Let_def)

lemma pollSuccess_fields [simp]:
  "comp (pollSuccess l result w) =
     (comp w)\<lparr>videoUrl := video_url result, isProcessing := False, progress := 100,
              showSuccessAnimation := True\<rparr>"
  "toasts (pollSuccess l result w) = toasts w @ [(now w, toastPollComplete)]"
  "requests (pollSuccess l result w) = requests w"
  "active (pollSuccess l result w) = removeAll l (active w)"
  by (simp_all add: pollSuccess_def)

lemma pollSuccess_nextId: "nextId w \<le> nextId (pollSuccess l result w)"
  by (simp add: pollSuccess_def progressEffect_nextId)

lemma pollSuccess_queue: "set (queue w) \<subseteq> set (queue (pollSuccess l result w))"
  unfolding pollSuccess_def by (rule progressEffect_queue) auto

lemma pollReply_eq:
  "pollReply l outcome w =
     (if readyReply outcome
      then (case outcome of Responds code (Some result) \<Rightarrow> pollSuccess l result w | _ \<Rightarrow> w)
      else w)"
  by (simp add: pollReply_def readyReply_def split: fetch_outcome.splits option.splits)

lemma readyReply_iff:
  "readyReply outcome \<longleftrightarrow>
     (\<exists>code result. outcome = Responds code (Some result) \<and> ok code \<and> successWithVideo result)"
  by (auto simp: readyReply_def split: fetch_outcome.splits option.splits)

lemma pollReply_unready: "\<not> readyReply outcome \<Longrightarrow> pollReply l outcome w = w"
  by (simp add: pollReply_eq)

lemma pollReply_ready:
  "ok code \<Longrightarrow> successWithVideo result \<Longrightarrow>
     pollReply l (Responds code (Some result)) w = pollSuccess l result w"
  by (simp add: pollReply_def)

lemma deadline_fields [simp]:
  "active (deadline l b w) = removeAll l (active w)"
  "requests (deadline l b w) = requests w"
  by (simp_all add: deadline_def Let_def)

lemma deadline_nextId: "nextId w \<le> nextId (deadline l b w)"
  by (simp add: deadline_def Let_def progressEffect_nextId)

lemma pollTick_fields [simp]:
  "comp (pollTick env l r w) = comp w" "toasts (pollTick env l r w) = toasts w"
  "active (pollTick env l r w) = active w" "nextId (pollTick env l r w) = nextId w"
  by (simp_all add: pollTick_def split: prod.splits)

lemma pollTick_requests:
  "requests (pollTick env l r w) =
     (if l \<in> set (active w)
      then requests w @ [\<lparr>sentAt = now w, sentBy = Probe l, body = probePayload r (now w)\<rparr>]
      else requests w)"
  by (simp add: pollTick_def split: prod.splits)

lemma progressTick_fields [simp]:
  "toasts (progressTick e w) = toasts w" "requests (progressTick e w) = requests w"
  "active (progressTick e w) = active w" "nextId (progressTick e w) = nextId w"
  by (simp_all add: progressTick_def)

lemma settle_requests [simp]: "requests (settle a b outcome w) = requests w"
  by (simp add: settle_def Let_def submitSuccess_def submitAccepted_def split: sum.splits)

lemma settle_active:
  "active (settle a b outcome w) =
     (case outcome of
        Inl error \<Rightarrow> active w
      | Inr result \<Rightarrow>
          if \<not> successWithVideo result \<and> status result = ascii ''success''
          then active w @ [nextId w] else active w)"
  by (simp add: settle_def Let_def submitSuccess_def submitAccepted_def split: sum.splits)

lemma settle_nextId: "nextId w \<le> nextId (settle a b outcome w)"
  by (simp add: settle_def Let_def submitSuccess_def submitAccepted_def progressEffect_nextId
        split: sum.splits)

lemma click_fields [simp]:
  "active (click env w) = active w" "nextId (click env w) = nextId w"
  by (simp_all add: click_def analyzeImage_def split: option.splits prod.splits)

lemma click_probes [simp]: "probesOf l (click env w) = probesOf l w"
  by (auto simp: probesOf_def click_def analyzeImage_def filter_empty_conv
       split: option.splits prod.splits)

lemma pollReply_nextId: "nextId w \<le> nextId (pollReply l outcome w)"
  by (simp add: pollReply_eq pollSuccess_nextId split: fetch_outcome.splits option.splits)

lemma pollReply_requests [simp]: "requests (pollReply l outcome w) = requests w"
  by (simp add: pollReply_eq split: fetch_outcome.splits option.splits)

lemma pollReply_active:
  "active (pollReply l outcome w) = (if readyReply outcome then removeAll l (active w) else active w)"
  by (auto simp: pollReply_eq readyReply_def split: fetch_outcome.splits option.splits)

text \<open>
  An interval that has been cleared stays cleared (interval ids are never reused) and
  its loop sends no further probe, whatever callbacks run afterwards.
\<close>

lemma handle_cleared:
  assumes "l \<notin> set (active w)" and "l < nextId w"
  shows "l \<notin> set (active (handle env x w)) \<and> l < nextId (handle env x w)
         \<and> probesOf l (handle env x w) = probesOf l w"
proof (cases x)
  case Click
  with assms show ?thesis by (simp add: handle_def)
next
  case (Settle a b outcome)
  have "l < nextId (settle a b outcome w)"
    using assms(2) settle_nextId [of w a b outcome] by simp
  with assms Settle show ?thesis
    by (simp add: handle_def settle_active probesOf_def split: sum.splits)
next
  case (PollTick l' r)
  with assms show ?thesis
    by (auto simp: handle_def probesOf_def pollTick_requests)
next
  case (PollReply l' outcome)
  have "l < nextId (pollReply l' outcome w)"
    using assms(2) pollReply_nextId [of w l' outcome] by simp
  with assms PollReply show ?thesis
    by (simp add: handle_def probesOf_def pollReply_active)
next
  case (Deadline l' b)
  have "l < nextId (deadline l' b w)"
    using assms(2) deadline_nextId [of w l' b] by simp
  with assms Deadline show ?thesis
    by (simp add: handle_def probesOf_def)
next
  case HideAnimation
  with assms show ?thesis by (simp add: handle_def probesOf_def)
next
  case (ProgressTick e)
  with assms show ?thesis by (simp add: handle_def probesOf_def)
qed

lemma step_cleared:
  assumes "l \<notin> set (active w)" and "l < nextId w"
  shows "l \<notin> set (active (step env w)) \<and> l < nextId (step env w)
         \<and> probesOf l (step env w) = probesOf l w"
proof (cases "queue w")
  case Nil
  with assms show ?thesis by (simp add: step_def)
next
  case (Cons e q)
  obtain t x where e: "e = (t, x)" by (cases e)
  have "probesOf l (w\<lparr>now := t, queue := q\<rparr>) = probesOf l w"
    by (simp add: probesOf_def)
  with assms Cons e handle_cleared [of l "w\<lparr>now := t, queue := q\<rparr>" env x]
  show ?thesis by (simp add: step_def)
qed

lemma run_cleared:
  "l \<notin> set (active w) \<Longrightarrow> l < nextId w \<Longrightarrow>
     l \<notin> set (active (run env n w)) \<and> probesOf l (run env n w) = probesOf l w"
proof (induction n arbitrary: w)
  case 0
  then show ?case by simp
next
  case (Suc n)
  from step_cleared [OF Suc.prems, of env]
  have s: "l \<notin> set (active (step env w))" "l < nextId (step env w)"
    "probesOf l (step env w) = probesOf l w" by simp_all
  from Suc.IH [OF s(1) s(2)] s(3) show ?case by simp
qed

lemma settle_ready:
  "successWithVideo result \<Longrightarrow>
     comp (settle a b (Inr result) w) =
       (comp w)\<lparr>videoUrl := video_url result, isProcessing := False, progress := 100,
                showSuccessAnimation := True, isAnalyzing := False\<rparr>"
  by (simp add: settle_def Let_def submitSuccess_def)

lemma settle_accepted:
  "\<not> successWithVideo result \<Longrightarrow> status result = ascii ''success'' \<Longrightarrow>
     comp (settle a b (Inr result) w) =
       (comp w)\<lparr>isProcessing := True, processingStartTime := Some (now w),
                requestId := (if truthy (request_id result) then request_id result
                              else requestId (comp w)),
                isAnalyzing := False\<rparr>"
  by (simp add: settle_def Let_def submitAccepted_def)

lemma getProgress_le: "getProgress t s \<le> 95"
  by (simp add: getProgress_def Let_def)

lemma getProgress_mono: "t \<le> t' \<Longrightarrow> getProgress t s \<le> getProgress t' s"
proof -
  assume le: "t \<le> t'"
  have "elapsedSeconds t x \<le> elapsedSeconds t' x" for x
    using le by (simp add: elapsedSeconds_def zdiv_mono1)
  then have "real_of_int (elapsedSeconds t x) / 240 * 100
               \<le> real_of_int (elapsedSeconds t' x) / 240 * 100" for x
    by (simp add: divide_right_mono)
  then have "min (real_of_int (elapsedSeconds t x) / 240 * 100) 95
               \<le> min (real_of_int (elapsedSeconds t' x) / 240 * 100) 95" for x
    using min.mono [OF _ order_refl] by blast
  then show ?thesis
    by (simp add: getProgress_def Let_def)
qed

lemma handle_progress:
  "progress (comp (handle env x w)) =
     (case x of
        Settle a b (Inr result) \<Rightarrow> if successWithVideo result then 100 else progress (comp w)
      | PollReply l outcome \<Rightarrow> if readyReply outcome then 100 else progress (comp w)
      | ProgressTick e \<Rightarrow>
          if progressTimer w = Some e
          then getProgress (int (now w)) (map_option int (processingStartTime (comp w)))
          else progress (comp w)
      | _ \<Rightarrow> progress (comp w))"
proof (cases x)
  case Click
  then show ?thesis
    by (simp add: handle_def click_def analyzeImage_def split: option.splits prod.splits)
next
  case (Settle a b outcome)
  then show ?thesis
    by (simp add: handle_def settle_def Let_def submitSuccess_def submitAccepted_def
          split: sum.splits)
next
  case (PollReply l outcome)
  then show ?thesis
    by (auto simp: handle_def pollReply_eq readyReply_def split: fetch_outcome.splits option.splits)
next
  case (Deadline l b)
  then show ?thesis by (simp add: handle_def deadline_def Let_def)
next
  case (ProgressTick e)
  then show ?thesis by (simp add: handle_def progressTick_def)
qed (simp_all add: handle_def)

section \<open>Invariants of the event loop\<close>

lemma sorted_enqueue: "sorted (map fst q) \<Longrightarrow> sorted (map fst (enqueue t x q))"
  by (induction t x q rule: enqueue.induct) auto

lemma timely_progressEffect: "timely w \<Longrightarrow> timely (progressEffect old w)"
  by (auto simp: progressEffect_def timely_def later_def sorted_enqueue)

lemma makeRequest_time: "t \<le> snd (snd (makeRequest f env t (Suc 0)))"
proof -
  obtain a1 r1 t1 where A1: "attemptOnce f (env 1) t 1 = (a1, r1, t1)"
    by (cases "attemptOnce f (env 1) t 1") auto
  obtain a2 r2 t2 where A2: "attemptOnce f (env 2) (t1 + 2000) 2 = (a2, r2, t2)"
    by (cases "attemptOnce f (env 2) (t1 + 2000) 2") auto
  obtain a3 r3 t3 where A3: "attemptOnce f (env 3) (t2 + 4000) 3 = (a3, r3, t3)"
    by (cases "attemptOnce f (env 3) (t2 + 4000) 3") auto
  have "t \<le> snd (snd (makeRequest f env t 1))"
    unfolding makeRequest_shape [OF A1 A2 A3]
    using attemptOnce_parts(4) [OF A1] attemptOnce_parts(4) [OF A2] attemptOnce_parts(4) [OF A3]
    by (simp split: sum.splits)
  then show ?thesis by simp
qed

lemma timely_handle: "timely w \<Longrightarrow> timely (handle env x w)"
proof (cases x)
  case Click
  assume t: "timely w"
  show ?thesis
  proof (cases "selectedImage (comp w)")
    case None
    with t Click show ?thesis by (simp add: handle_def click_def)
  next
    case (Some f)
    obtain acts outcome tE where m: "makeRequest f (submitNet env (now w)) (now w) (Suc 0) = (acts, outcome, tE)"
      by (cases "makeRequest f (submitNet env (now w)) (now w) (Suc 0)") auto
    with makeRequest_time [of "now w" f "submitNet env (now w)"] have "now w \<le> tE" by simp
    with t Click Some m show ?thesis
      by (auto simp: handle_def click_def analyzeImage_def timely_def sorted_enqueue)
  qed
next
  case (Settle a b outcome)
  assume t: "timely w"
  have "timely w1 \<Longrightarrow> timely (progressEffect old (w1\<lparr>comp := c\<rparr>))" for w1 old c
    by (rule timely_progressEffect) (simp add: timely_def)
  moreover have "timely (submitSuccess r w)" "timely (submitAccepted a b r w)"
    "timely (showToast y w)" for r y
    using t by (auto simp: timely_def submitSuccess_def submitAccepted_def sorted_enqueue)
  ultimately show ?thesis using Settle
    by (simp add: handle_def settle_def Let_def split: sum.splits)
next
  case (PollTick l r)
  assume t: "timely w"
  then show ?thesis using PollTick
    by (auto simp: handle_def pollTick_def timely_def sorted_enqueue split: prod.splits)
next
  case (PollReply l outcome)
  assume t: "timely w"
  have "timely (pollSuccess l r w)" for r
    unfolding pollSuccess_def
    by (rule timely_progressEffect) (use t in \<open>auto simp: timely_def sorted_enqueue\<close>)
  with t show ?thesis using PollReply
    by (simp add: handle_def pollReply_eq split: fetch_outcome.splits option.splits)
next
  case (Deadline l b)
  assume t: "timely w"
  have "timely (progressEffect old (showToast y (w\<lparr>active := d, comp := c\<rparr>)))" for old y d c
    by (rule timely_progressEffect) (use t in \<open>auto simp: timely_def\<close>)
  moreover have "timely (w\<lparr>active := d\<rparr>)" for d using t by (simp add: timely_def)
  ultimately show ?thesis using Deadline
    by (simp add: handle_def deadline_def Let_def)
next
  case HideAnimation
  assume t: "timely w"
  then show ?thesis using HideAnimation by (simp add: handle_def timely_def)
next
  case (ProgressTick e)
  assume t: "timely w"
  then show ?thesis using ProgressTick
    by (auto simp: handle_def progressTick_def timely_def sorted_enqueue)
qed

lemma timely_pop:
  assumes "timely w" and "queue w = (t, x) # q"
  shows "timely (w\<lparr>now := t, queue := q\<rparr>)" and "now w \<le> t" and "\<forall>e\<in>set q. t \<le> fst e"
  using assms by (auto simp: timely_def)

lemma timely_step: "timely w \<Longrightarrow> timely (step env w)"
proof (cases "queue w")
  case Nil
  assume "timely w"
  with Nil show ?thesis by (simp add: step_def)
next
  case (Cons e q)
  assume t: "timely w"
  obtain u x where e: "e = (u, x)" by (cases e)
  from timely_pop(1) [OF t, of u x q] Cons e timely_handle [of "w\<lparr>now := u, queue := q\<rparr>" env x]
  show ?thesis by (simp add: step_def)
qed

lemma handle_nextId: "nextId w \<le> nextId (handle env x w)"
  by (cases x)
     (simp_all add: handle_def settle_nextId pollReply_nextId deadline_nextId)

lemma set_queue_progressEffect:
  "set (queue (progressEffect old w)) =
     (if (isProcessing (comp w) \<noteq> isProcessing old
          \<or> processingStartTime (comp w) \<noteq> processingStartTime old)
         \<and> isProcessing (comp w) \<and> \<not> unset (map_option int (processingStartTime (comp w)))
      then insert (now w + 1000, ProgressTick (nextId w)) (set (queue w))
      else set (queue w))"
  by (simp add: progressEffect_def)

lemma handle_queue_mono: "set (queue w) \<subseteq> set (queue (handle env x w))"
proof (cases x)
  case Click
  then show ?thesis
    by (auto simp: handle_def click_def analyzeImage_def split: option.splits prod.splits)
next
  case (Settle a b outcome)
  then show ?thesis
    by (auto simp: handle_def settle_def Let_def submitSuccess_def submitAccepted_def
          set_queue_progressEffect split: sum.splits)
next
  case (PollTick l r)
  then show ?thesis by (auto simp: handle_def pollTick_def split: prod.splits)
next
  case (PollReply l outcome)
  then show ?thesis
    using pollSuccess_queue [of w l]
    by (auto simp: handle_def pollReply_eq split: fetch_outcome.splits option.splits)
next
  case (Deadline l b)
  then show ?thesis
    by (auto simp: handle_def deadline_def Let_def set_queue_progressEffect)
next
  case HideAnimation
  then show ?thesis by (simp add: handle_def)
next
  case (ProgressTick e)
  then show ?thesis by (auto simp: handle_def progressTick_def)
qed

lemma handle_new_tick:
  assumes "e \<in> set (queue (handle env x w))" and "snd e = PollTick l r"
  shows "e \<in> set (queue w)
         \<or> (x = PollTick l r \<and> l \<in> set (active w) \<and> fst e = now w + 5000)
         \<or> l = nextId w"
proof (cases x)
  case Click
  with assms show ?thesis
    by (auto simp: handle_def click_def analyzeImage_def split: option.splits prod.splits if_splits)
next
  case (Settle a b outcome)
  from assms(1) Settle have "e \<in> set (queue (settle a b outcome w))" by (simp add: handle_def)
  then have "e \<in> set (queue w) \<or> (\<exists>t y. e = (t, y) \<and> (\<forall>r'. y \<noteq> PollTick l r'))
               \<or> e = (now w + 5000, PollTick (nextId w) a)"
    by (auto simp: settle_def Let_def submitSuccess_def submitAccepted_def
          set_queue_progressEffect split: sum.splits if_splits)
  with assms(2) show ?thesis by auto
next
  case (PollTick l' r')
  with assms show ?thesis
    by (auto simp: handle_def pollTick_def split: prod.splits if_splits)
next
  case (PollReply l' outcome)
  with assms show ?thesis
    by (auto simp: handle_def pollReply_eq pollSuccess_def set_queue_progressEffect
          split: fetch_outcome.splits option.splits if_splits)
next
  case (Deadline l' b)
  with assms show ?thesis
    by (auto simp: handle_def deadline_def Let_def set_queue_progressEffect split: if_splits)
next
  case HideAnimation
  with assms show ?thesis by (simp add: handle_def)
next
  case (ProgressTick e')
  with assms show ?thesis by (auto simp: handle_def progressTick_def split: if_splits)
qed

lemma handle_probes:
  "probesOf l (handle env x w) =
     (case x of
        PollTick l' r \<Rightarrow>
          if l' = l \<and> l \<in> set (active w)
          then probesOf l w @ [\<lparr>sentAt = now w, sentBy = Probe l, body = probePayload r (now w)\<rparr>]
          else probesOf l w
      | _ \<Rightarrow> probesOf l w)"
proof (cases x)
  case Click
  then show ?thesis by (simp add: handle_def)
next
  case (PollTick l' r)
  then show ?thesis by (auto simp: handle_def probesOf_def pollTick_requests)
qed (simp_all add: handle_def probesOf_def)

lemma handle_active:
  "i \<in> set (active (handle env x w)) \<Longrightarrow> i \<in> set (active w) \<or> i = nextId w"
  by (cases x)
     (auto simp: handle_def settle_active pollReply_active split: sum.splits if_splits)

text \<open>One turn of the event loop keeps what holds of a polling loop.\<close>

lemma loopInv_handle:
  assumes inv: "loopInv l t0 w0" and q: "queue w0 = (u, x) # q"
  shows "loopInv l t0 (handle env x (w0\<lparr>now := u, queue := q\<rparr>))"
proof -
  let ?w = "w0\<lparr>now := u, queue := q\<rparr>"
  let ?w' = "handle env x ?w"
  from inv have T: "timely w0" and L: "l < nextId w0"
    and K: "\<forall>e\<in>set (queue w0). \<forall>r. snd e = PollTick l r \<longrightarrow> (\<exists>k\<ge>1. fst e = t0 + 5000 * k)"
    and P: "\<forall>p\<in>set (probesOf l w0). \<exists>k\<ge>1. k \<le> 72 \<and> sentAt p = t0 + 5000 * k"
    and D: "l \<in> set (active w0) \<longrightarrow> (\<exists>b. (t0 + 360000, Deadline l b) \<in> set (queue w0))"
    by (simp_all add: loopInv_def)
  note pop = timely_pop [OF T q]
  have 1: "timely ?w'" by (rule timely_handle) (rule pop(1))
  have 2: "l < nextId ?w'" using L handle_nextId [of ?w env x] by simp
  have 3: "\<exists>k\<ge>1. fst e = t0 + 5000 * k" if e: "e \<in> set (queue ?w')" "snd e = PollTick l r" for e r
  proof -
    from handle_new_tick [OF e] L
    consider "e \<in> set q" | "x = PollTick l r" "fst e = u + 5000" by auto
    then show ?thesis
    proof cases
      case 1
      with K q e(2) show ?thesis by auto
    next
      case 2
      with K q obtain k where "k \<ge> 1" "u = t0 + 5000 * k" by auto
      with 2 have "Suc k \<ge> 1 \<and> fst e = t0 + 5000 * Suc k" by simp
      then show ?thesis by blast
    qed
  qed
  have 4: "\<exists>k\<ge>1. k \<le> 72 \<and> sentAt p = t0 + 5000 * k" if p: "p \<in> set (probesOf l ?w')" for p
  proof (cases "\<exists>r. x = PollTick l r \<and> l \<in> set (active w0)")
    case False
    then have "probesOf l ?w' = probesOf l ?w"
      by (auto simp: handle_probes split: task.splits)
    also have "\<dots> = probesOf l w0" by (simp add: probesOf_def)
    finally show ?thesis using p P by simp
  next
    case True
    then obtain r where x: "x = PollTick l r" and a: "l \<in> set (active w0)" by auto
    from K q x obtain k where k: "k \<ge> 1" "u = t0 + 5000 * k" by auto
    from D a q x obtain b where "(t0 + 360000, Deadline l b) \<in> set q" by auto
    with pop(3) have "u \<le> t0 + 360000" by auto
    with k have hi: "k \<le> 72" by simp
    have "probesOf l ?w = probesOf l w0" by (simp add: probesOf_def)
    with p x a have "p \<in> set (probesOf l w0) \<or> sentAt p = u"
      by (auto simp: handle_probes)
    with P k hi show ?thesis by auto
  qed
  have 5: "\<exists>b. (t0 + 360000, Deadline l b) \<in> set (queue ?w')" if a: "l \<in> set (active ?w')"
  proof -
    from handle_active [OF a] L have a0: "l \<in> set (active w0)" by auto
    with D q obtain b where b: "(t0 + 360000, Deadline l b) \<in> set ((u, x) # q)" by auto
    have "x \<noteq> Deadline l b" using a by (auto simp: handle_def)
    with b have "(t0 + 360000, Deadline l b) \<in> set (queue ?w)" by auto
    with handle_queue_mono [of ?w env x] show ?thesis by blast
  qed
  from 1 2 3 4 5 show ?thesis unfolding loopInv_def by blast
qed

lemma loopInv_step: "loopInv l t0 w \<Longrightarrow> loopInv l t0 (step env w)"
proof (cases "queue w")
  case Nil
  assume "loopInv l t0 w"
  with Nil show ?thesis by (simp add: step_def)
next
  case (Cons e q)
  assume inv: "loopInv l t0 w"
  obtain u x where e: "e = (u, x)" by (cases e)
  with Cons loopInv_handle [OF inv, of u x q env] show ?thesis by (simp add: step_def)
qed

lemma loopInv_run: "loopInv l t0 w \<Longrightarrow> loopInv l t0 (run env n w)"
  by (induction n arbitrary: w) (simp_all add: loopInv_step)

lemma nextId_progressEffect:
  "nextId (progressEffect old w) =
     (if (isProcessing (comp w) \<noteq> isProcessing old
          \<or> processingStartTime (comp w) \<noteq> processingStartTime old)
         \<and> isProcessing (comp w) \<and> \<not> unset (map_option int (processingStartTime (comp w)))
      then nextId w + 1 else nextId w)"
  by (simp add: progressEffect_def)

lemma handle_queue_ids:
  assumes "\<forall>e\<in>set (queue w). \<forall>i. taskId (snd e) = Some i \<longrightarrow> i < nextId w"
    and "\<forall>i. taskId x = Some i \<longrightarrow> i < nextId w"
  shows "\<forall>e\<in>set (queue (handle env x w)). \<forall>i. taskId (snd e) = Some i \<longrightarrow> i < nextId (handle env x w)"
proof (cases x)
  case Click
  with assms show ?thesis
    by (auto simp: handle_def click_def analyzeImage_def split: option.splits prod.splits)
next
  case (Settle a b outcome)
  with assms(1) show ?thesis
    by (fastforce simp: handle_def settle_def Let_def submitSuccess_def submitAccepted_def
          set_queue_progressEffect nextId_progressEffect split: sum.splits if_splits)
next
  case (PollTick l r)
  with assms show ?thesis
    by (auto simp: handle_def pollTick_def split: prod.splits)
next
  case (PollReply l outcome)
  with assms(1) show ?thesis
    by (fastforce simp: handle_def pollReply_eq pollSuccess_def set_queue_progressEffect
          nextId_progressEffect split: fetch_outcome.splits option.splits if_splits)
next
  case (Deadline l b)
  with assms(1) show ?thesis
    by (fastforce simp: handle_def deadline_def Let_def set_queue_progressEffect
          nextId_progressEffect split: if_splits)
next
  case HideAnimation
  with assms show ?thesis by (simp add: handle_def)
next
  case (ProgressTick e)
  with assms show ?thesis by (auto simp: handle_def progressTick_def)
qed

lemma handle_request_ids:
  assumes "\<forall>p\<in>set (requests w). \<forall>i. sentBy p = Probe i \<longrightarrow> i < nextId w"
    and "\<forall>i. taskId x = Some i \<longrightarrow> i < nextId w"
  shows "\<forall>p\<in>set (requests (handle env x w)). \<forall>i. sentBy p = Probe i \<longrightarrow> i < nextId (handle env x w)"
proof -
  have new: "p \<in> set (requests w) \<or> (\<exists>l r. x = PollTick l r \<and> sentBy p = Probe l)
          \<or> sentBy p = Submission"
    if "p \<in> set (requests (handle env x w))" for p
    using that
    by (cases x)
       (auto simp: handle_def click_def analyzeImage_def pollTick_requests
          split: option.splits prod.splits if_splits)
  show ?thesis
  proof (intro ballI allI impI)
    fix p i assume p: "p \<in> set (requests (handle env x w))" and i: "sentBy p = Probe i"
    from new [OF p] i have "p \<in> set (requests w) \<or> (\<exists>r. x = PollTick i r)" by auto
    with assms i have "i < nextId w" by auto
    with handle_nextId [of w env x] show "i < nextId (handle env x w)" by simp
  qed
qed

lemma settle_nextId_accepted:
  "\<not> successWithVideo result \<Longrightarrow> status result = ascii ''success'' \<Longrightarrow>
     nextId w < nextId (settle a b (Inr result) w)"
  by (simp add: settle_def Let_def submitAccepted_def nextId_progressEffect)

lemma handle_active_ids:
  assumes "\<forall>i\<in>set (active w). i < nextId w"
  shows "\<forall>i\<in>set (active (handle env x w)). i < nextId (handle env x w)"
proof
  fix i assume "i \<in> set (active (handle env x w))"
  from handle_active [OF this] consider "i \<in> set (active w)" | "i = nextId w" "i \<notin> set (active w)" by auto
  then show "i < nextId (handle env x w)"
  proof cases
    case 1
    with assms handle_nextId [of w env x] show ?thesis by (auto intro: less_le_trans)
  next
    case 2
    with \<open>i \<in> set (active (handle env x w))\<close> show ?thesis
      by (cases x)
         (auto simp: handle_def settle_active pollReply_active settle_nextId_accepted
            split: sum.splits if_splits)
  qed
qed

lemma wellFormed_step: "wellFormed w \<Longrightarrow> wellFormed (step env w)"
proof (cases "queue w")
  case Nil
  assume "wellFormed w"
  with Nil show ?thesis by (simp add: step_def)
next
  case (Cons e q)
  assume wf: "wellFormed w"
  obtain u x where e: "e = (u, x)" by (cases e)
  let ?w = "w\<lparr>now := u, queue := q\<rparr>"
  from wf Cons e have 1: "timely (handle env x ?w)"
    by (auto simp: wellFormed_def intro!: timely_handle timely_pop(1))
  from wf Cons e have a: "\<forall>e\<in>set (queue ?w). \<forall>i. taskId (snd e) = Some i \<longrightarrow> i < nextId ?w"
    and b: "\<forall>i. taskId x = Some i \<longrightarrow> i < nextId ?w"
    and c: "\<forall>p\<in>set (requests ?w). \<forall>i. sentBy p = Probe i \<longrightarrow> i < nextId ?w"
    and d: "\<forall>i\<in>set (active ?w). i < nextId ?w"
    by (auto simp: wellFormed_def)
  from 1 handle_queue_ids [OF a b] handle_request_ids [OF c b] handle_active_ids [OF d]
  show ?thesis using Cons e by (simp add: step_def wellFormed_def)
qed

lemma wellFormed_run: "wellFormed w \<Longrightarrow> wellFormed (run env n w)"
  by (induction n arbitrary: w) (simp_all add: wellFormed_step)

lemma wellFormed_mounted:
  "sorted presses \<Longrightarrow> \<forall>p\<in>set presses. t \<le> p \<Longrightarrow> wellFormed (mounted t f presses)"
  by (auto simp: wellFormed_def timely_def mounted_def comp_def sorted_map)

text \<open>An accepted submission starts a loop of which the invariant holds.\<close>

lemma set_queue_settle_accepted:
  assumes "\<not> successWithVideo result" and "status result = ascii ''success''"
  shows "set (queue (settle a b (Inr result) w)) \<subseteq>
           {(now w + 360000, Deadline (nextId w) b), (now w + 5000, PollTick (nextId w) a),
            (now w + 1000, ProgressTick (nextId w + 1))} \<union> set (queue w)"
    and "(now w + 360000, Deadline (nextId w) b) \<in> set (queue (settle a b (Inr result) w))"
    and "(now w + 5000, PollTick (nextId w) a) \<in> set (queue (settle a b (Inr result) w))"
  using assms
  by (auto simp: settle_def Let_def submitAccepted_def set_queue_progressEffect split: if_splits)

lemma loopInv_settle:
  assumes wf: "wellFormed w"
    and acc: "\<not> successWithVideo result" "status result = ascii ''success''"
  shows "loopInv (nextId w) (now w) (settle a b (Inr result) w)"
proof -
  let ?w' = "settle a b (Inr result) w"
  from wf have T: "timely w"
    and Q: "\<forall>e\<in>set (queue w). \<forall>i. taskId (snd e) = Some i \<longrightarrow> i < nextId w"
    and R: "\<forall>p\<in>set (requests w). \<forall>i. sentBy p = Probe i \<longrightarrow> i < nextId w"
    by (simp_all add: wellFormed_def)
  from timely_handle [OF T, where x = "Settle a b (Inr result)"]
  have c1: "timely ?w'" by (simp add: handle_def)
  have c2: "nextId w < nextId ?w'" using acc by (rule settle_nextId_accepted)
  have c3: "\<forall>e\<in>set (queue ?w'). \<forall>r. snd e = PollTick (nextId w) r \<longrightarrow>
              (\<exists>k\<ge>1. fst e = now w + 5000 * k)"
  proof (intro ballI allI impI)
    fix e r assume e: "e \<in> set (queue ?w')" "snd e = PollTick (nextId w) r"
    have "e \<notin> set (queue w)"
    proof
      assume "e \<in> set (queue w)"
      with Q have "\<forall>i. taskId (snd e) = Some i \<longrightarrow> i < nextId w" by blast
      with e(2) show False by simp
    qed
    with e set_queue_settle_accepted(1) [OF acc, of a b w]
    have "fst e = now w + 5000" by auto
    then have "(1::nat) \<ge> 1 \<and> fst e = now w + 5000 * 1" by simp
    then show "\<exists>k\<ge>1. fst e = now w + 5000 * k" by blast
  qed
  have "probesOf (nextId w) ?w' = []"
  proof -
    have "sentBy p \<noteq> Probe (nextId w)" if "p \<in> set (requests w)" for p
      using R that by fastforce
    then show ?thesis by (simp add: probesOf_def filter_empty_conv)
  qed
  then have c4: "\<forall>p\<in>set (probesOf (nextId w) ?w'). \<exists>k\<ge>1. k \<le> 72 \<and> sentAt p = now w + 5000 * k"
    by simp
  have c5: "nextId w \<in> set (active ?w') \<longrightarrow>
              (\<exists>b'. (now w + 360000, Deadline (nextId w) b') \<in> set (queue ?w'))"
    using set_queue_settle_accepted(2) [OF acc, of w b a] by blast
  from c1 c2 c3 c4 c5 show ?thesis unfolding loopInv_def by (intro conjI)
qed

lemma probes_window:
  assumes "wellFormed w" and "\<not> successWithVideo result" and "status result = ascii ''success''"
    and "p \<in> set (probesOf (nextId w) (run env n (settle a b (Inr result) w)))"
  shows "\<exists>k\<ge>1. k \<le> 72 \<and> sentAt p = now w + 5000 * k"
  using loopInv_run [OF loopInv_settle [OF assms(1-3)], of env n a b] assms(4)
  by (simp add: loopInv_def)

lemma run_add: "run env (m + n) w = run env n (run env m w)"
  by (induction m arbitrary: w) simp_all

lemma wellFormed_pop:
  "wellFormed w \<Longrightarrow> queue w = (u, x) # q \<Longrightarrow> wellFormed (w\<lparr>now := u, queue := q\<rparr>)"
  by (auto simp: wellFormed_def timely_def)

lemma accepted_loop_probes:
  assumes "sorted presses" and "\<forall>p\<in>set presses. t \<le> p"
    and "queue (run env m (mounted t f presses)) = (u, Settle a b (Inr result)) # q"
    and "\<not> successWithVideo result" and "status result = ascii ''success''"
    and "p \<in> set (probesOf (nextId (run env m (mounted t f presses)))
                  (run env (m + Suc n) (mounted t f presses)))"
  shows "\<exists>k\<ge>1. k \<le> 72 \<and> sentAt p = u + 5000 * k"
proof -
  let ?W = "run env m (mounted t f presses)"
  let ?w = "?W\<lparr>now := u, queue := q\<rparr>"
  have "wellFormed ?W" using assms(1,2) by (intro wellFormed_run wellFormed_mounted)
  then have wf: "wellFormed ?w" using assms(3) by (rule wellFormed_pop)
  have "step env ?W = settle a b (Inr result) ?w"
    using assms(3) by (simp add: step_def handle_def)
  then have "run env (Suc n) ?W = run env n (settle a b (Inr result) ?w)" by simp
  then have "run env (m + Suc n) (mounted t f presses) = run env n (settle a b (Inr result) ?w)"
    by (simp only: run_add)
  with assms(6) have "p \<in> set (probesOf (nextId ?w) (run env n (settle a b (Inr result) ?w)))"
    by simp
  from probes_window [OF wf assms(4,5) this] show ?thesis by simp
qed

section \<open>Sample facts\<close>

lemma run_numeral: "run env (numeral k) w = run env (pred_numeral k) (step env w)"
  by (simp add: numeral_eq_Suc)

lemmas run_eval = run_numeral step_def handle_def click_def analyzeImage_def settle_def
  submitAccepted_def submitSuccess_def startPollingForVideo_def pollTick_def pollReply_def
  pollSuccess_def deadline_def progressEffect_def progressTick_def later_def showToast_def
  mounted_def makeRequest.simps [of _ _ _ "Suc 0"] attemptOnce_def answers_def ok_def Let_def
  truthy_def unset_def getProgress_def elapsedSeconds_def probePayload_def

lemma reply_fields [simp]:
  "status (reply s u r) = ascii s" "video_url (reply s u r) = u" "request_id (reply s u r) = r"
  "message (reply s u r) = None"
  by (simp_all add: reply_def)

lemma sample_strings [simp]:
  "ascii ''job-1'' \<noteq> []" "ascii ''job-2'' \<noteq> []"
  "ascii ''processing'' \<noteq> ascii ''success''" "ascii ''error'' \<noteq> ascii ''success''"
  by (simp_all add: ascii_def)

section \<open>The result check (claim C2)\<close>

lemma trim_empty_iff: "trim u = [] \<longleftrightarrow> (\<forall>c\<in>set u. isWhiteSpace c)"
proof
  assume "trim u = []"
  then have all: "\<forall>c\<in>set (dropWhile isWhiteSpace u). isWhiteSpace c"
    by (simp add: trim_def)
  show "\<forall>c\<in>set u. isWhiteSpace c"
  proof (cases "dropWhile isWhiteSpace u")
    case Nil
    then show ?thesis by simp
  next
    case (Cons c cs)
    then have "\<not> isWhiteSpace (hd (dropWhile isWhiteSpace u))"
      using hd_dropWhile [of isWhiteSpace u] by simp
    with Cons all show ?thesis by simp
  qed
next
  assume "\<forall>c\<in>set u. isWhiteSpace c"
  then show "trim u = []" by (auto simp: trim_def dest: set_dropWhileD)
qed

lemma length_http: "length (ascii ''http'') = 4"
  by (simp add: ascii_def)

lemma successWithVideo_iff:
  "successWithVideo r \<longleftrightarrow>
     status r = ascii ''success'' \<and>
     (\<exists>u. video_url r = Some u \<and> (\<exists>c\<in>set u. \<not> isWhiteSpace c) \<and> take 4 u = ascii ''http'')"
proof (cases "video_url r")
  case None
  then show ?thesis by (simp add: successWithVideo_def truthy_def)
next
  case (Some u)
  have "trim u \<noteq> [] \<Longrightarrow> u \<noteq> []" by (auto simp: trim_empty_iff)
  with Some show ?thesis
    unfolding successWithVideo_def truthy_def startsWith_def length_http
    by (auto simp: trim_empty_iff)
qed

lemma sample_checks [simp]:
  "\<not> successWithVideo (reply st None r)"
  "\<not> successWithVideo (reply ''processing'' u r)"
  "\<not> successWithVideo (reply ''error'' u r)"
  "successWithVideo (reply ''success'' (Some (ascii ''https://cdn.example/v.mp4'')) r)"
  "successWithVideo (reply ''success'' (Some (ascii ''https://cdn.example/old.mp4'')) r)"
  "successWithVideo (reply ''success'' (Some (ascii ''httpfoo'')) r)"
  by (simp_all add: successWithVideo_iff) (simp_all add: ascii_def isWhiteSpace_def)

text \<open>
  Claim C2, as the code has it. For a response whose status is \<^verbatim>\<open>"success"\<close> the
  check for a video holds exactly when \<^verbatim>\<open>video_url\<close> is present, has a code unit
  that is not white space, and itself (not trimmed) begins with \<^verbatim>\<open>http\<close>. When it
  holds, the submission stores the URL, leaves \<^verbatim>\<open>isProcessing\<close> false and starts no
  polling loop, and a probe reply with such a result stores the URL, clears
  \<^verbatim>\<open>isProcessing\<close> and its own interval. When it does not hold, the submission
  sets \<^verbatim>\<open>isProcessing\<close>, keeps the URL state and starts a polling loop, and a probe
  reply changes nothing.
\<close>

theorem C2_result_check:
  assumes "status result = ascii ''success''"
  shows "(successWithVideo result \<longleftrightarrow>
            (\<exists>u. video_url result = Some u \<and> (\<exists>c\<in>set u. \<not> isWhiteSpace c)
                 \<and> take 4 u = ascii ''http''))
    \<and> (successWithVideo result \<longrightarrow>
         videoUrl (comp (settle a b (Inr result) w)) = video_url result
         \<and> \<not> isProcessing (comp (settle a b (Inr result) w))
         \<and> active (settle a b (Inr result) w) = active w
         \<and> (ok code \<longrightarrow>
              videoUrl (comp (pollReply l (Responds code (Some result)) w)) = video_url result
              \<and> \<not> isProcessing (comp (pollReply l (Responds code (Some result)) w))
              \<and> l \<notin> set (active (pollReply l (Responds code (Some result)) w))))
    \<and> (\<not> successWithVideo result \<longrightarrow>
         isProcessing (comp (settle a b (Inr result) w))
         \<and> videoUrl (comp (settle a b (Inr result) w)) = videoUrl (comp w)
         \<and> active (settle a b (Inr result) w) = active w @ [nextId w]
         \<and> pollReply l (Responds code (Some result)) w = w)"
proof -
  have 1: "successWithVideo result \<longleftrightarrow>
            (\<exists>u. video_url result = Some u \<and> (\<exists>c\<in>set u. \<not> isWhiteSpace c)
                 \<and> take 4 u = ascii ''http'')"
    using assms by (simp add: successWithVideo_iff)
  have 2: "successWithVideo result \<longrightarrow>
         videoUrl (comp (settle a b (Inr result) w)) = video_url result
         \<and> \<not> isProcessing (comp (settle a b (Inr result) w))
         \<and> active (settle a b (Inr result) w) = active w
         \<and> (ok code \<longrightarrow>
              videoUrl (comp (pollReply l (Responds code (Some result)) w)) = video_url result
              \<and> \<not> isProcessing (comp (pollReply l (Responds code (Some result)) w))
              \<and> l \<notin> set (active (pollReply l (Responds code (Some result)) w)))"
    by (simp add: settle_ready settle_active pollReply_ready)
  have 3: "\<not> successWithVideo result \<longrightarrow>
         isProcessing (comp (settle a b (Inr result) w))
         \<and> videoUrl (comp (settle a b (Inr result) w)) = videoUrl (comp w)
         \<and> active (settle a b (Inr result) w) = active w @ [nextId w]
         \<and> pollReply l (Responds code (Some result)) w = w"
    using assms by (simp add: settle_accepted settle_active pollReply_def)
  from 1 2 3 show ?thesis by blast
qed

text \<open>
  A result with \<^verbatim>\<open>https://cdn.example/v.mp4\<close> completes the job at once; one with
  \<^verbatim>\<open>ftp://bad\<close> starts polling, and as a probe reply it is dropped.
\<close>

theorem C2_result_check_witness:
  "status (reply ''success'' (Some (ascii ''https://cdn.example/v.mp4'')) None) = ascii ''success''
   \<and> successWithVideo (reply ''success'' (Some (ascii ''https://cdn.example/v.mp4'')) None)
   \<and> videoUrl (comp (settle None False
         (Inr (reply ''success'' (Some (ascii ''https://cdn.example/v.mp4'')) None))
         (mounted 1000 picture0 []))) = Some (ascii ''https://cdn.example/v.mp4'')
   \<and> active (settle None False
         (Inr (reply ''success'' (Some (ascii ''https://cdn.example/v.mp4'')) None))
         (mounted 1000 picture0 [])) = []
   \<and> status (reply ''success'' (Some (ascii ''ftp://bad'')) None) = ascii ''success''
   \<and> \<not> successWithVideo (reply ''success'' (Some (ascii ''ftp://bad'')) None)
   \<and> isProcessing (comp (settle None False (Inr (reply ''success'' (Some (ascii ''ftp://bad'')) None))
         (mounted 1000 picture0 [])))
   \<and> active (settle None False (Inr (reply ''success'' (Some (ascii ''ftp://bad'')) None))
         (mounted 1000 picture0 [])) = [0]
   \<and> pollReply 0 (Responds 200 (Some (reply ''success'' (Some (ascii ''ftp://bad'')) None)))
         (mounted 1000 picture0 []) = mounted 1000 picture0 []"
proof -
  have "\<not> successWithVideo (reply ''success'' (Some (ascii ''ftp://bad'')) None)"
    by (simp add: successWithVideo_def startsWith_def ascii_def)
  then show ?thesis
    using C2_result_check [of "reply ''success'' (Some (ascii ''https://cdn.example/v.mp4'')) None"
        None False "mounted 1000 picture0 []" 200 0]
      C2_result_check [of "reply ''success'' (Some (ascii ''ftp://bad'')) None"
        None False "mounted 1000 picture0 []" 200 0]
    by (simp add: mounted_def)
qed

text \<open>
  Claim C2 as stated fails in both directions: \<^verbatim>\<open>httpfoo\<close> begins with neither
  \<^verbatim>\<open>http://\<close> nor \<^verbatim>\<open>https://\<close>, yet it is stored as the video both after a
  submission and after a probe; and a URL with a leading blank begins with
  \<^verbatim>\<open>https://\<close> once trimmed, yet it does not pass the check.
\<close>

theorem C2_http_prefix_counterexample:
  "status (reply ''success'' (Some (ascii ''httpfoo'')) None) = ascii ''success''
   \<and> \<not> startsWith (trim (ascii ''httpfoo'')) (ascii ''http://'')
   \<and> \<not> startsWith (trim (ascii ''httpfoo'')) (ascii ''https://'')
   \<and> videoUrl (comp (settle None False (Inr (reply ''success'' (Some (ascii ''httpfoo'')) None))
         (mounted 1000 picture0 []))) = Some (ascii ''httpfoo'')
   \<and> videoUrl (comp (pollReply 0 (Responds 200 (Some (reply ''success'' (Some (ascii ''httpfoo'')) None)))
         (mounted 1000 picture0 []))) = Some (ascii ''httpfoo'')
   \<and> startsWith (trim (ascii '' https://cdn.example/v.mp4'')) (ascii ''https://'')
   \<and> \<not> successWithVideo (reply ''success'' (Some (ascii '' https://cdn.example/v.mp4'')) None)"
proof -
  have "\<not> startsWith (trim (ascii ''httpfoo'')) (ascii ''http://'')"
    "\<not> startsWith (trim (ascii ''httpfoo'')) (ascii ''https://'')"
    "startsWith (trim (ascii '' https://cdn.example/v.mp4'')) (ascii ''https://'')"
    by (simp_all add: startsWith_def trim_def ascii_def isWhiteSpace_def)
  moreover have "\<not> successWithVideo (reply ''success'' (Some (ascii '' https://cdn.example/v.mp4'')) None)"
    by (simp add: successWithVideo_def startsWith_def ascii_def)
  ultimately show ?thesis
    by (simp add: settle_ready pollReply_ready ok_def)
qed

section \<open>Polling (claims C10, C4, C3, C1, C6)\<close>

text \<open>
  Claim C10, as the code has it. A probe reply acts only when the response is
  \<^verbatim>\<open>ok\<close>, parses, and passes the check for a video that the code makes
  (\<^verbatim>\<open>successWithVideo\<close>: status \<^verbatim>\<open>"success"\<close> and a \<^verbatim>\<open>video_url\<close> that is not blank and
  itself begins with \<^verbatim>\<open>http\<close>; it is weaker than beginning with \<^verbatim>\<open>http://\<close> or
  \<^verbatim>\<open>https://\<close> after trimming). Every other reply (a rejected fetch, a response that
  is not \<^verbatim>\<open>ok\<close>, an unparsable body, a result with another status or without such a
  video) leaves the whole world as it is: the state, the notifications, the interval
  and the pending callbacks. An interval is cleared only by a reply that acts or by
  the deadline callback of its loop, which \<^verbatim>\<open>startPollingForVideo\<close> makes due
  360000 ms later.
\<close>

theorem C10_unready_probe_is_ignored:
  "(readyReply outcome \<longleftrightarrow>
      (\<exists>code result. outcome = Responds code (Some result) \<and> ok code \<and> successWithVideo result))
   \<and> (\<not> readyReply outcome \<longrightarrow> handle env (PollReply l outcome) w = w)
   \<and> (l \<in> set (active w) \<and> l \<notin> set (active (handle env x w)) \<longrightarrow>
        (\<exists>outcome'. x = PollReply l outcome' \<and> readyReply outcome') \<or> (\<exists>b. x = Deadline l b))
   \<and> (\<exists>t. (t, Deadline (nextId w) b) \<in> set (queue (startPollingForVideo r b w))
        \<and> t = now w + 360000)"
proof -
  have "l \<in> set (active w) \<and> l \<notin> set (active (handle env x w)) \<longrightarrow>
        (\<exists>outcome'. x = PollReply l outcome' \<and> readyReply outcome') \<or> (\<exists>b. x = Deadline l b)"
    by (cases x) (auto simp: handle_def settle_active pollReply_active split: sum.splits if_splits)
  then show ?thesis
    by (simp add: readyReply_iff handle_def pollReply_unready)
qed

text \<open>
  A reply \<^verbatim>\<open>{status: "error"}\<close> and a rejected fetch leave the world after an accepted
  submission unchanged, interval 0 included; the deadline callback clears it.
\<close>

theorem C10_unready_probe_is_ignored_witness:
  "\<not> readyReply (Responds 200 (Some (reply ''error'' None None)))
   \<and> handle envAccepted (PollReply 0 (Responds 200 (Some (reply ''error'' None None))))
        (run envAccepted 2 (mounted 1000 picture0 [1000]))
       = run envAccepted 2 (mounted 1000 picture0 [1000])
   \<and> \<not> readyReply (Responds 503 None) \<and> \<not> readyReply Rejects
   \<and> handle envAccepted (PollReply 0 Rejects) (run envAccepted 2 (mounted 1000 picture0 [1000]))
       = run envAccepted 2 (mounted 1000 picture0 [1000])
   \<and> 0 \<in> set (active (run envAccepted 2 (mounted 1000 picture0 [1000])))
   \<and> 0 \<notin> set (active (handle envAccepted (Deadline 0 False)
                          (run envAccepted 2 (mounted 1000 picture0 [1000]))))"
proof -
  have a: "active (run envAccepted 2 (mounted 1000 picture0 [1000])) = [0]"
    by (simp add: run_eval envAccepted_def)
  have r: "\<not> readyReply (Responds 200 (Some (reply ''error'' None None)))"
    "\<not> readyReply (Responds 503 None)" "\<not> readyReply Rejects"
    by (simp_all add: readyReply_def)
  show ?thesis
    using C10_unready_probe_is_ignored [of "Responds 200 (Some (reply ''error'' None None))"
        envAccepted 0 "run envAccepted 2 (mounted 1000 picture0 [1000])" "Deadline 0 False"]
      C10_unready_probe_is_ignored [of Rejects
        envAccepted 0 "run envAccepted 2 (mounted 1000 picture0 [1000])" "Deadline 0 False"]
    by (simp add: a r handle_def)
qed

text \<open>
  Claim C10 as stated fails: the URL \<^verbatim>\<open>httpfoo\<close> begins, trimmed, with neither
  \<^verbatim>\<open>http://\<close> nor \<^verbatim>\<open>https://\<close>, yet a probe reply 200 with status \<^verbatim>\<open>"success"\<close> and this
  URL, arriving while interval 0 of an accepted submission is running, clears the
  interval, stores the URL and ends the processing.
\<close>

theorem C10_invalid_url_reply_stops_loop:
  "\<not> startsWith (trim (ascii ''httpfoo'')) (ascii ''http://'')
   \<and> \<not> startsWith (trim (ascii ''httpfoo'')) (ascii ''https://'')
   \<and> active (run envAccepted 2 (mounted 1000 picture0 [1000])) = [0]
   \<and> videoUrl (comp (run envAccepted 2 (mounted 1000 picture0 [1000]))) = None
   \<and> isProcessing (comp (run envAccepted 2 (mounted 1000 picture0 [1000])))
   \<and> active (handle envAccepted
         (PollReply 0 (Responds 200 (Some (reply ''success'' (Some (ascii ''httpfoo'')) None))))
         (run envAccepted 2 (mounted 1000 picture0 [1000]))) = []
   \<and> videoUrl (comp (handle envAccepted
         (PollReply 0 (Responds 200 (Some (reply ''success'' (Some (ascii ''httpfoo'')) None))))
         (run envAccepted 2 (mounted 1000 picture0 [1000])))) = Some (ascii ''httpfoo'')
   \<and> \<not> isProcessing (comp (handle envAccepted
         (PollReply 0 (Responds 200 (Some (reply ''success'' (Some (ascii ''httpfoo'')) None))))
         (run envAccepted 2 (mounted 1000 picture0 [1000]))))"
proof -
  have s: "\<not> startsWith (trim (ascii ''httpfoo'')) (ascii ''http://'')"
    "\<not> startsWith (trim (ascii ''httpfoo'')) (ascii ''https://'')"
    by (simp_all add: startsWith_def trim_def ascii_def isWhiteSpace_def)
  have a: "active (run envAccepted 2 (mounted 1000 picture0 [1000])) = [0]"
    "videoUrl (comp (run envAccepted 2 (mounted 1000 picture0 [1000]))) = None"
    "isProcessing (comp (run envAccepted 2 (mounted 1000 picture0 [1000])))"
    by (simp_all add: run_eval envAccepted_def)
  show ?thesis
    by (simp add: s a handle_def pollReply_ready ok_def)
qed

text \<open>
  Claim C4, as the code has it. \<^verbatim>\<open>startPollingForVideo\<close> sends nothing itself: the
  first interval callback is due 5000 ms later. Each interval callback of a loop
  that is not cleared sends one probe at once and is due again 5000 ms later,
  whatever replies are still pending: the spacing is from send to send, not from the
  completion of the previous probe. In every run of the mounted component, when a
  submission settles as accepted at time \<open>u\<close>, each probe of the loop it starts is
  sent at \<open>u + 5000 * k\<close> for some \<open>k \<ge> 1\<close>.
\<close>

theorem C4_interval_schedule:
  "requests (startPollingForVideo r b w) = requests w
   \<and> queue (startPollingForVideo r b w) =
       enqueue (now w + 360000) (Deadline (nextId w) b)
         (enqueue (now w + 5000) (PollTick (nextId w) r) (queue w))
   \<and> (l \<in> set (active w) \<longrightarrow>
        requests (pollTick env l r w) =
          requests w @ [\<lparr>sentAt = now w, sentBy = Probe l, body = probePayload r (now w)\<rparr>]
        \<and> (now w + 5000, PollTick l r) \<in> set (queue (pollTick env l r w))
        \<and> set (queue w) \<subseteq> set (queue (pollTick env l r w))
        \<and> l \<in> set (active (pollTick env l r w)))
   \<and> (sorted presses \<and> (\<forall>p\<in>set presses. t \<le> p)
        \<and> queue (run env m (mounted t f presses)) = (u, Settle a b (Inr accepted)) # q
        \<and> \<not> successWithVideo accepted \<and> status accepted = ascii ''success'' \<longrightarrow>
        (\<forall>p\<in>set (probesOf (nextId (run env m (mounted t f presses)))
                    (run env (m + Suc n) (mounted t f presses))).
           \<exists>k\<ge>1. sentAt p = u + 5000 * k))"
proof -
  have "\<exists>k\<ge>1. sentAt p = u + 5000 * k"
    if "sorted presses" "\<forall>p\<in>set presses. t \<le> p"
      "queue (run env m (mounted t f presses)) = (u, Settle a b (Inr accepted)) # q"
      "\<not> successWithVideo accepted" "status accepted = ascii ''success''"
      "p \<in> set (probesOf (nextId (run env m (mounted t f presses)))
                  (run env (m + Suc n) (mounted t f presses)))" for p
    using accepted_loop_probes [OF that] by auto
  moreover have "l \<in> set (active w) \<longrightarrow>
        requests (pollTick env l r w) =
          requests w @ [\<lparr>sentAt = now w, sentBy = Probe l, body = probePayload r (now w)\<rparr>]
        \<and> (now w + 5000, PollTick l r) \<in> set (queue (pollTick env l r w))
        \<and> set (queue w) \<subseteq> set (queue (pollTick env l r w))
        \<and> l \<in> set (active (pollTick env l r w))"
    by (auto simp: pollTick_requests pollTick_def split: prod.splits)
  ultimately show ?thesis by simp
qed

text \<open>
  At 6100 the reply to the first probe of the slow service is pending (due 13100); a
  second interval callback at that moment would send another probe and be due again
  at 11100. The submission settles as accepted at 1100, and the probes of its loop
  are sent at 6100 and 11100.
\<close>

theorem C4_interval_schedule_witness:
  "now (run envSlow 7 (mounted 1000 picture0 [1000])) = 6100
   \<and> 0 \<in> set (active (run envSlow 7 (mounted 1000 picture0 [1000])))
   \<and> length (requests (pollTick envSlow 0 None (run envSlow 7 (mounted 1000 picture0 [1000]))))
       = Suc (length (requests (run envSlow 7 (mounted 1000 picture0 [1000]))))
   \<and> (11100, PollTick 0 None)
       \<in> set (queue (pollTick envSlow 0 None (run envSlow 7 (mounted 1000 picture0 [1000]))))
   \<and> (13100, PollReply 0 (Responds 200 (Some (reply ''processing'' None None))))
       \<in> set (queue (pollTick envSlow 0 None (run envSlow 7 (mounted 1000 picture0 [1000]))))
   \<and> sorted [1000 :: nat] \<and> (1000 :: nat) \<le> 1000
   \<and> queue (run envSlow 1 (mounted 1000 picture0 [1000]))
       = [(1100, Settle None False (Inr (reply ''success'' None (Some (ascii ''job-1'')))))]
   \<and> \<not> successWithVideo (reply ''success'' None (Some (ascii ''job-1'')))
   \<and> status (reply ''success'' None (Some (ascii ''job-1''))) = ascii ''success''
   \<and> nextId (run envSlow 1 (mounted 1000 picture0 [1000])) = 0
   \<and> map sentAt (probesOf 0 (run envSlow (1 + Suc 11) (mounted 1000 picture0 [1000])))
       = [1100 + 5000 * 1, 1100 + 5000 * 2]"
proof -
  have a: "active (run envSlow 7 (mounted 1000 picture0 [1000])) = [0]"
    "now (run envSlow 7 (mounted 1000 picture0 [1000])) = 6100"
    "(13100, PollReply 0 (Responds 200 (Some (reply ''processing'' None None))))
       \<in> set (queue (run envSlow 7 (mounted 1000 picture0 [1000])))"
    by (simp_all add: run_eval envSlow_def)
  have b: "queue (run envSlow 1 (mounted 1000 picture0 [1000]))
       = [(1100, Settle None False (Inr (reply ''success'' None (Some (ascii ''job-1'')))))]"
    "nextId (run envSlow 1 (mounted 1000 picture0 [1000])) = 0"
    "map sentAt (probesOf 0 (run envSlow (1 + Suc 11) (mounted 1000 picture0 [1000])))
       = [6100, 11100]"
    by (simp_all add: run_eval probesOf_def envSlow_def)
  show ?thesis
    using C4_interval_schedule [of None False "run envSlow 7 (mounted 1000 picture0 [1000])"
        0 envSlow "[1000]" 1000 1 picture0 1100 None
        "reply ''success'' None (Some (ascii ''job-1''))" "[]" 11]
      a b
    by auto
qed

text \<open>
  Claim C4 as stated fails: with replies that take 7000 ms, the second probe is sent
  at 11100 while the reply to the first is still pending until 13100.
\<close>

theorem C4_probes_overlap:
  "now (run envSlow 13 (mounted 1000 picture0 [1000])) = 11100
   \<and> map sentAt (probesOf 0 (run envSlow 13 (mounted 1000 picture0 [1000]))) = [6100, 11100]
   \<and> [t. (t, PollReply l outcome) \<leftarrow> queue (run envSlow 13 (mounted 1000 picture0 [1000]))]
       = [13100, 18100]"
  by (simp add: run_eval probesOf_def envSlow_def)

text \<open>
  Claim C3, as the code has it. \<^verbatim>\<open>startPollingForVideo\<close> makes one deadline callback
  due 360000 ms later. The deadline callback clears the interval of its loop, and so
  does a reply with a video, which cancels no pending callback: the deadline stays
  due. An interval callback of a cleared interval does nothing, and once an interval
  is cleared its loop sends no probe in any continuation of the run. In every run of
  the mounted component, when a submission settles as accepted at time \<open>u\<close>, no probe
  of the loop it starts is sent later than \<open>u + 360000\<close>.
\<close>

theorem C3_deadline_stops_probes:
  "queue (startPollingForVideo r b w) =
     enqueue (now w + 360000) (Deadline (nextId w) b)
       (enqueue (now w + 5000) (PollTick (nextId w) r) (queue w))
   \<and> l \<notin> set (active (deadline l b w))
   \<and> (ok code \<and> successWithVideo result \<longrightarrow>
        l \<notin> set (active (pollReply l (Responds code (Some result)) w))
        \<and> set (queue w) \<subseteq> set (queue (pollReply l (Responds code (Some result)) w)))
   \<and> (l \<notin> set (active w) \<longrightarrow> pollTick env l r w = w)
   \<and> (l \<notin> set (active w) \<and> l < nextId w \<longrightarrow>
        l \<notin> set (active (run env n w)) \<and> probesOf l (run env n w) = probesOf l w)
   \<and> (sorted presses \<and> (\<forall>p\<in>set presses. t \<le> p)
        \<and> queue (run env m (mounted t f presses)) = (u, Settle a b (Inr accepted)) # q
        \<and> \<not> successWithVideo accepted \<and> status accepted = ascii ''success'' \<longrightarrow>
        (\<forall>p\<in>set (probesOf (nextId (run env m (mounted t f presses)))
                    (run env (m + Suc n) (mounted t f presses))).
           sentAt p \<le> u + 360000))"
proof -
  have "sentAt p \<le> u + 360000"
    if "sorted presses" "\<forall>p\<in>set presses. t \<le> p"
      "queue (run env m (mounted t f presses)) = (u, Settle a b (Inr accepted)) # q"
      "\<not> successWithVideo accepted" "status accepted = ascii ''success''"
      "p \<in> set (probesOf (nextId (run env m (mounted t f presses)))
                  (run env (m + Suc n) (mounted t f presses)))" for p
    using accepted_loop_probes [OF that] by auto
  then show ?thesis
    using run_cleared [of l w env n] pollSuccess_queue [of w l result]
    by (simp add: pollReply_ready pollTick_def)
qed

text \<open>
  After the reply with a video at 6200, interval 0 is cleared and stays so, and the
  probes of loop 0 are the same four callbacks later. The submission settles as
  accepted at 1100, and the one probe of its loop is sent at 6100.
\<close>

theorem C3_deadline_stops_probes_witness:
  "0 \<notin> set (active (run envReady 9 (mounted 1000 picture0 [1000])))
   \<and> 0 < nextId (run envReady 9 (mounted 1000 picture0 [1000]))
   \<and> probesOf 0 (run envReady 4 (run envReady 9 (mounted 1000 picture0 [1000])))
       = probesOf 0 (run envReady 9 (mounted 1000 picture0 [1000]))
   \<and> 0 \<notin> set (active (run envReady 4 (run envReady 9 (mounted 1000 picture0 [1000]))))
   \<and> ok 200 \<and> successWithVideo (reply ''success'' (Some (ascii ''https://cdn.example/v.mp4'')) None)
   \<and> 0 \<notin> set (active (pollReply 0
         (Responds 200 (Some (reply ''success'' (Some (ascii ''https://cdn.example/v.mp4'')) None)))
         (run envReady 8 (mounted 1000 picture0 [1000]))))
   \<and> sorted [1000 :: nat] \<and> (1000 :: nat) \<le> 1000
   \<and> queue (run envReady 1 (mounted 1000 picture0 [1000]))
       = [(1100, Settle None False (Inr (reply ''success'' None (Some (ascii ''job-1'')))))]
   \<and> \<not> successWithVideo (reply ''success'' None (Some (ascii ''job-1'')))
   \<and> status (reply ''success'' None (Some (ascii ''job-1''))) = ascii ''success''
   \<and> nextId (run envReady 1 (mounted 1000 picture0 [1000])) = 0
   \<and> map sentAt (probesOf 0 (run envReady (1 + Suc 11) (mounted 1000 picture0 [1000]))) = [6100]
   \<and> (6100 :: nat) \<le> 1100 + 360000"
proof -
  have a: "active (run envReady 9 (mounted 1000 picture0 [1000])) = []"
    "nextId (run envReady 9 (mounted 1000 picture0 [1000])) = 2"
    by (simp_all add: run_eval envReady_def)
  have b: "queue (run envReady 1 (mounted 1000 picture0 [1000]))
       = [(1100, Settle None False (Inr (reply ''success'' None (Some (ascii ''job-1'')))))]"
    "nextId (run envReady 1 (mounted 1000 picture0 [1000])) = 0"
    "map sentAt (probesOf 0 (run envReady (1 + Suc 11) (mounted 1000 picture0 [1000]))) = [6100]"
    by (simp_all add: run_eval probesOf_def envReady_def)
  show ?thesis
    using C3_deadline_stops_probes [of None False "run envReady 9 (mounted 1000 picture0 [1000])"
        0 200 "reply ''success'' (Some (ascii ''https://cdn.example/v.mp4'')) None" envReady 4]
      C3_deadline_stops_probes [of None False "run envReady 8 (mounted 1000 picture0 [1000])"
        0 200 "reply ''success'' (Some (ascii ''https://cdn.example/v.mp4'')) None" envReady 11
        "[1000]" 1000 1 picture0 1100 None
        "reply ''success'' None (Some (ascii ''job-1''))" "[]"]
      a b
    by (simp add: ok_def)
qed

text \<open>
  Claim C3 as stated fails: the first probe reports the video at 6200 and clears the
  interval, but the deadline callback is still pending, and it runs at 361100, which
  is 360000 ms after polling started.
\<close>

theorem C3_deadline_after_ready_probe:
  "videoUrl (comp (run envReady 9 (mounted 1000 picture0 [1000])))
     = Some (ascii ''https://cdn.example/v.mp4'')
   \<and> now (run envReady 9 (mounted 1000 picture0 [1000])) = 6200
   \<and> active (run envReady 9 (mounted 1000 picture0 [1000])) = []
   \<and> queue (run envReady 12 (mounted 1000 picture0 [1000])) = [(361100, Deadline 0 False)]
   \<and> now (run envReady 13 (mounted 1000 picture0 [1000])) = 361100
   \<and> queue (run envReady 13 (mounted 1000 picture0 [1000])) = []"
  by (simp add: run_eval envReady_def)

text \<open>
  Claim C1, as the code has it. There is no generation: what a probe reply does to the
  state and the notifications does not depend on the loop that sent the probe. A
  reply with a video, from whichever loop, stores the URL, clears \<^verbatim>\<open>isProcessing\<close>,
  sets the progress to 100 and shows the completion toast. A new submission clears
  no interval, neither when the button is pressed nor when its result arrives.
\<close>

theorem C1_probe_reply_ignores_origin:
  "comp (pollReply l outcome w) = comp (pollReply l' outcome w)
   \<and> toasts (pollReply l outcome w) = toasts (pollReply l' outcome w)
   \<and> (ok code \<and> successWithVideo result \<longrightarrow>
        comp (pollReply l (Responds code (Some result)) w) =
          (comp w)\<lparr>videoUrl := video_url result, isProcessing := False, progress := 100,
                   showSuccessAnimation := True\<rparr>
        \<and> toasts (pollReply l (Responds code (Some result)) w) =
            toasts w @ [(now w, toastPollComplete)])
   \<and> active (click env w) = active w
   \<and> set (active w) \<subseteq> set (active (settle a b submitted w))"
proof -
  have "comp (pollReply l outcome w) = comp (pollReply l' outcome w)
        \<and> toasts (pollReply l outcome w) = toasts (pollReply l' outcome w)"
    by (simp add: pollReply_eq split: fetch_outcome.splits option.splits)
  moreover have "set (active w) \<subseteq> set (active (settle a b submitted w))"
    by (auto simp: settle_active split: sum.splits)
  ultimately show ?thesis by (simp add: pollReply_ready)
qed

text \<open>A reply with a video does the same for the loops 0 and 2.\<close>

theorem C1_probe_reply_ignores_origin_witness:
  "ok 200 \<and> successWithVideo (reply ''success'' (Some (ascii ''https://cdn.example/old.mp4'')) None)
   \<and> videoUrl (comp (pollReply 0 (Responds 200
         (Some (reply ''success'' (Some (ascii ''https://cdn.example/old.mp4'')) None)))
         (mounted 1000 picture0 []))) = Some (ascii ''https://cdn.example/old.mp4'')
   \<and> toasts (pollReply 0 (Responds 200
         (Some (reply ''success'' (Some (ascii ''https://cdn.example/old.mp4'')) None)))
         (mounted 1000 picture0 [])) = [(1000, toastPollComplete)]
   \<and> comp (pollReply 0 (Responds 200
         (Some (reply ''success'' (Some (ascii ''https://cdn.example/old.mp4'')) None)))
         (mounted 1000 picture0 []))
     = comp (pollReply 2 (Responds 200
         (Some (reply ''success'' (Some (ascii ''https://cdn.example/old.mp4'')) None)))
         (mounted 1000 picture0 []))"
  using C1_probe_reply_ignores_origin [of 0
      "Responds 200 (Some (reply ''success'' (Some (ascii ''https://cdn.example/old.mp4'')) None))"
      "mounted 1000 picture0 []" 2 200
      "reply ''success'' (Some (ascii ''https://cdn.example/old.mp4'')) None"]
    C1_probe_reply_ignores_origin [of 2
      "Responds 200 (Some (reply ''success'' (Some (ascii ''https://cdn.example/old.mp4'')) None))"
      "mounted 1000 picture0 []" 0 200
      "reply ''success'' (Some (ascii ''https://cdn.example/old.mp4'')) None"]
  by (simp add: ok_def mounted_def)

text \<open>
  Claim C1 as stated fails. The button is pressed at 1000 and, while the first job is
  processing, again at 3000; both submissions are accepted, and the first polling
  loop (interval 0) is not stopped by the second submission. At 6200 the reply to its
  probe arrives: \<^verbatim>\<open>isProcessing\<close> of the second job is cleared, the video of the
  first job is stored and the completion toast is shown.
\<close>

theorem C1_stale_probe_changes_state:
  "active (run envTwoJobs 11 (mounted 1000 picture0 [1000, 3000])) = [0, 2]
   \<and> hd (queue (run envTwoJobs 11 (mounted 1000 picture0 [1000, 3000]))) =
       (6200, PollReply 0 (Responds 200
          (Some (reply ''success'' (Some (ascii ''https://cdn.example/old.mp4'')) None))))
   \<and> videoUrl (comp (run envTwoJobs 11 (mounted 1000 picture0 [1000, 3000]))) = None
   \<and> isProcessing (comp (run envTwoJobs 11 (mounted 1000 picture0 [1000, 3000])))
   \<and> requestId (comp (run envTwoJobs 11 (mounted 1000 picture0 [1000, 3000]))) = Some (ascii ''job-2'')
   \<and> videoUrl (comp (run envTwoJobs 12 (mounted 1000 picture0 [1000, 3000])))
       = Some (ascii ''https://cdn.example/old.mp4'')
   \<and> \<not> isProcessing (comp (run envTwoJobs 12 (mounted 1000 picture0 [1000, 3000])))
   \<and> length (toasts (run envTwoJobs 11 (mounted 1000 picture0 [1000, 3000]))) = 4
   \<and> last (toasts (run envTwoJobs 12 (mounted 1000 picture0 [1000, 3000])))
       = (6200, toastPollComplete)"
  by (simp add: run_eval envTwoJobs_def)

text \<open>
  Claim C6 at a first submission. The response carries the handle \<^verbatim>\<open>job-1\<close>, which
  is stored before polling starts; but \<^verbatim>\<open>startPollingForVideo\<close> has captured the
  \<^verbatim>\<open>requestId\<close> of the render in which the button was pressed, which is
  \<^verbatim>\<open>null\<close>, and that is what the first probe sends.
\<close>

theorem C6_probe_sends_stale_request_id:
  "requestId (comp (mounted 1000 picture0 [1000])) = None
   \<and> requestId (comp (run envAccepted 2 (mounted 1000 picture0 [1000]))) = Some (ascii ''job-1'')
   \<and> probesOf 0 (run envAccepted 2 (mounted 1000 picture0 [1000])) = []
   \<and> requestId (comp (run envAccepted 7 (mounted 1000 picture0 [1000]))) = Some (ascii ''job-1'')
   \<and> map body (probesOf 0 (run envAccepted 7 (mounted 1000 picture0 [1000])))
       = [[(''check_status'', JBool True), (''request_id'', JNull), (''timestamp'', JIso 6100)]]"
  by (simp add: run_eval probesOf_def envAccepted_def)

section \<open>Progress (claims C8, C9)\<close>

text \<open>
  Claim C8, as the code has it. With a start time set, \<^verbatim>\<open>getProgress\<close> is
  \<open>min (elapsed / 240 * 100) 95\<close> for the whole seconds elapsed; it does not decrease
  as the clock advances and never exceeds 95. No callback moves the progress to 100
  except a probe reply that acts and the settling of a submission whose result
  passes the check for a video that the code makes (\<^verbatim>\<open>successWithVideo\<close>: status
  \<^verbatim>\<open>"success"\<close> and a \<^verbatim>\<open>video_url\<close> that is not blank and itself begins with \<^verbatim>\<open>http\<close>),
  and these two set it to 100.
\<close>

theorem C8_progress_estimate:
  "(\<not> unset start \<longrightarrow>
      getProgress t start = min (of_int (elapsedSeconds t (the start)) / 240 * 100) 95)
   \<and> (t \<le> t' \<longrightarrow> getProgress t start \<le> getProgress t' start)
   \<and> getProgress t start \<le> 95
   \<and> (progress (comp (handle env x w)) = 100 \<and> progress (comp w) \<noteq> 100 \<longrightarrow>
        (\<exists>l outcome. x = PollReply l outcome \<and> readyReply outcome)
        \<or> (\<exists>a b result. x = Settle a b (Inr result) \<and> successWithVideo result))
   \<and> (readyReply outcome \<longrightarrow> progress (comp (handle env (PollReply l outcome) w)) = 100)
   \<and> (successWithVideo result \<longrightarrow>
        progress (comp (handle env (Settle a b (Inr result)) w)) = 100)"
proof -
  have 1: "\<not> unset start \<longrightarrow>
      getProgress t start = min (of_int (elapsedSeconds t (the start)) / 240 * 100) 95"
    by (simp add: getProgress_def Let_def)
  have "getProgress u s \<noteq> 100" for u s
    using getProgress_le [of u s] by simp
  then have 4: "progress (comp (handle env x w)) = 100 \<and> progress (comp w) \<noteq> 100 \<longrightarrow>
        (\<exists>l outcome. x = PollReply l outcome \<and> readyReply outcome)
        \<or> (\<exists>a b result. x = Settle a b (Inr result) \<and> successWithVideo result)"
    by (cases x) (auto simp: handle_progress split: sum.splits if_splits)
  from 1 4 show ?thesis
    by (simp add: getProgress_mono getProgress_le handle_progress)
qed

text \<open>
  Four seconds after the start the estimate is 5/3, later it is capped at 95, and a
  reply or a submission result with a video sets the progress of a fresh component
  to 100.
\<close>

theorem C8_progress_estimate_witness:
  "\<not> unset (Some 1000) \<and> getProgress 5000 (Some 1000) = 5 / 3
   \<and> (5000 :: int) \<le> 6000 \<and> getProgress 5000 (Some 1000) \<le> getProgress 6000 (Some 1000)
   \<and> getProgress 500000 (Some 1000) = 95
   \<and> readyReply (Responds 200 (Some (reply ''success'' (Some (ascii ''https://cdn.example/v.mp4'')) None)))
   \<and> progress (comp (mounted 1000 picture0 [])) \<noteq> 100
   \<and> progress (comp (handle envReady
         (PollReply 0 (Responds 200 (Some (reply ''success'' (Some (ascii ''https://cdn.example/v.mp4'')) None))))
         (mounted 1000 picture0 []))) = 100
   \<and> successWithVideo (reply ''success'' (Some (ascii ''https://cdn.example/v.mp4'')) None)
   \<and> progress (comp (handle envReady
         (Settle None False (Inr (reply ''success'' (Some (ascii ''https://cdn.example/v.mp4'')) None)))
         (mounted 1000 picture0 []))) = 100"
  using C8_progress_estimate [of "Some 1000" 5000 6000 envReady
      "PollReply 0 (Responds 200 (Some (reply ''success'' (Some (ascii ''https://cdn.example/v.mp4'')) None)))"
      "mounted 1000 picture0 []"
      "Responds 200 (Some (reply ''success'' (Some (ascii ''https://cdn.example/v.mp4'')) None))"
      0 "reply ''success'' (Some (ascii ''https://cdn.example/v.mp4'')) None" None False]
    C8_progress_estimate [of "Some 1000" 500000 500000 envReady
      "PollReply 0 (Responds 200 (Some (reply ''success'' (Some (ascii ''https://cdn.example/v.mp4'')) None)))"
      "mounted 1000 picture0 []"
      "Responds 200 (Some (reply ''success'' (Some (ascii ''https://cdn.example/v.mp4'')) None))"
      0 "reply ''success'' (Some (ascii ''https://cdn.example/v.mp4'')) None" None False]
  by (simp add: unset_def elapsedSeconds_def readyReply_def ok_def mounted_def)

text \<open>
  Claim C8 as stated fails: the URL \<^verbatim>\<open>httpfoo\<close> begins, trimmed, with neither
  \<^verbatim>\<open>http://\<close> nor \<^verbatim>\<open>https://\<close>, so a success carrying it is not a validated one, yet
  both a probe reply and a submission result with status \<^verbatim>\<open>"success"\<close> and this URL
  move the progress of a fresh component from 0 to 100.
\<close>

theorem C8_unvalidated_success_sets_100:
  "\<not> startsWith (trim (ascii ''httpfoo'')) (ascii ''http://'')
   \<and> \<not> startsWith (trim (ascii ''httpfoo'')) (ascii ''https://'')
   \<and> progress (comp (mounted 1000 picture0 [])) = 0
   \<and> progress (comp (handle envReady
         (PollReply 0 (Responds 200 (Some (reply ''success'' (Some (ascii ''httpfoo'')) None))))
         (mounted 1000 picture0 []))) = 100
   \<and> progress (comp (handle envReady
         (Settle None False (Inr (reply ''success'' (Some (ascii ''httpfoo'')) None)))
         (mounted 1000 picture0 []))) = 100"
proof -
  have "\<not> startsWith (trim (ascii ''httpfoo'')) (ascii ''http://'')"
    "\<not> startsWith (trim (ascii ''httpfoo'')) (ascii ''https://'')"
    by (simp_all add: startsWith_def trim_def ascii_def isWhiteSpace_def)
  moreover have "progress (comp (mounted 1000 picture0 [])) = 0"
    by (simp add: mounted_def)
  ultimately show ?thesis
    by (simp add: handle_progress readyReply_def ok_def)
qed

text \<open>
  Claim C9, as the code has it. With a start time set, the message and the remaining
  time follow the breakpoints 15, 90 and 180 of the whole seconds elapsed, lower
  bounds included: below 15 the message about analyzing with
  \<^verbatim>\<open>2-4 minutes remaining\<close> and a progress below 6.25; from 15 to below 90 the
  message about the caveman form with \<^verbatim>\<open>1-3 minutes remaining\<close>; from 90 to below
  180 the message about the transformation with \<^verbatim>\<open>1-2 minutes remaining\<close>; from
  180 on the same message with \<^verbatim>\<open>Almost done...\<close>. The messages are the display
  texts of \<^verbatim>\<open>getProcessingMessage\<close>, not the labels of the claim.
\<close>

theorem C9_breakpoints:
  assumes "\<not> unset start"
  shows "(elapsedSeconds t (the start) < 15 \<longrightarrow>
            getProcessingMessage t start = msgAnalyzing
            \<and> getEstimatedTimeRemaining t start = ascii ''2-4 minutes remaining''
            \<and> getProgress t start < 6.25)
       \<and> (15 \<le> elapsedSeconds t (the start) \<and> elapsedSeconds t (the start) < 90 \<longrightarrow>
            getProcessingMessage t start = msgImage
            \<and> getEstimatedTimeRemaining t start = ascii ''1-3 minutes remaining'')
       \<and> (90 \<le> elapsedSeconds t (the start) \<and> elapsedSeconds t (the start) < 180 \<longrightarrow>
            getProcessingMessage t start = msgVideo
            \<and> getEstimatedTimeRemaining t start = ascii ''1-2 minutes remaining'')
       \<and> (180 \<le> elapsedSeconds t (the start) \<longrightarrow>
            getProcessingMessage t start = msgVideo
            \<and> getEstimatedTimeRemaining t start = ascii ''Almost done...'')"
proof -
  have "getProgress t start < 6.25" if "elapsedSeconds t (the start) < 15"
  proof -
    from that have "real_of_int (elapsedSeconds t (the start)) \<le> 14" by simp
    then have "real_of_int (elapsedSeconds t (the start)) / 240 * 100 < 6.25" by simp
    with assms show ?thesis by (simp add: getProgress_def Let_def min_less_iff_disj)
  qed
  with assms show ?thesis
    by (simp add: getProcessingMessage_def getEstimatedTimeRemaining_def Let_def)
qed

text \<open>The four rows of the table at 4, 15, 90 and 180 seconds.\<close>

theorem C9_breakpoints_witness:
  "\<not> unset (Some 1000)
   \<and> elapsedSeconds 5000 (the (Some 1000)) = 4
   \<and> getProcessingMessage 5000 (Some 1000) = msgAnalyzing
   \<and> getEstimatedTimeRemaining 5000 (Some 1000) = ascii ''2-4 minutes remaining''
   \<and> getProgress 5000 (Some 1000) < 6.25
   \<and> elapsedSeconds 16000 (the (Some 1000)) = 15
   \<and> getProcessingMessage 16000 (Some 1000) = msgImage
   \<and> getEstimatedTimeRemaining 16000 (Some 1000) = ascii ''1-3 minutes remaining''
   \<and> elapsedSeconds 91000 (the (Some 1000)) = 90
   \<and> getProcessingMessage 91000 (Some 1000) = msgVideo
   \<and> getEstimatedTimeRemaining 91000 (Some 1000) = ascii ''1-2 minutes remaining''
   \<and> elapsedSeconds 181000 (the (Some 1000)) = 180
   \<and> getProcessingMessage 181000 (Some 1000) = msgVideo
   \<and> getEstimatedTimeRemaining 181000 (Some 1000) = ascii ''Almost done...''"
  using C9_breakpoints [of "Some 1000" 5000] C9_breakpoints [of "Some 1000" 16000]
    C9_breakpoints [of "Some 1000" 91000] C9_breakpoints [of "Some 1000" 181000]
  by (simp add: unset_def elapsedSeconds_def)

text \<open>
  Claim C9 as stated fails: four seconds after the start the message is the display
  text about analyzing, which is not the string \<^verbatim>\<open>analyzing\<close>.
\<close>

theorem C9_stage_label_counterexample:
  "\<not> unset (Some 1000) \<and> elapsedSeconds 5000 (the (Some 1000)) = 4
   \<and> getProcessingMessage 5000 (Some 1000) = msgAnalyzing
   \<and> getProcessingMessage 5000 (Some 1000) \<noteq> ascii ''analyzing''"
  by (simp add: unset_def elapsedSeconds_def getProcessingMessage_def msgAnalyzing_def ascii_def)

end
